theory Spec2Isabelle
  imports Complex_Main
begin

section \<open>Python values: exceptions, dictionaries, arrays\<close>

text \<open>
  The exceptions the modelled code can raise. A function that can raise returns
  \<open>error + 'a\<close>, with \<open>Inl\<close> for the exception.
\<close>

datatype error =
    KeyError | ValueError | IndexError | NameError | AttributeError
  | ZeroDivisionError | TypeError | NotImplementedError

fun foldE :: "('a \<Rightarrow> 's \<Rightarrow> error + 's) \<Rightarrow> 'a list \<Rightarrow> 's \<Rightarrow> error + 's" where
  "foldE body [] s = Inr s"
| "foldE body (x # xs) s =
     (case body x s of Inl e \<Rightarrow> Inl e | Inr s' \<Rightarrow> foldE body xs s')"

text \<open>
  A Python \<open>dict\<close> with integer keys, in insertion order (the order \<open>keys()\<close>
  lists them in): an association list with distinct keys. \<open>d[k]\<close> raises
  \<open>KeyError\<close> on a missing key; \<open>d[k] = v\<close> overwrites in place or appends.
\<close>

type_synonym 'v pydict = "(int \<times> 'v) list"

definition keys :: "'v pydict \<Rightarrow> int list" where
  "keys d = map fst d"

definition getitem :: "'v pydict \<Rightarrow> int \<Rightarrow> error + 'v" where
  "getitem d k = (case map_of d k of None \<Rightarrow> Inl KeyError | Some v \<Rightarrow> Inr v)"

fun setitem :: "'v pydict \<Rightarrow> int \<Rightarrow> 'v \<Rightarrow> 'v pydict" where
  "setitem [] k v = [(k, v)]"
| "setitem ((k', v') # d) k v =
     (if k' = k then (k, v) # d else (k', v') # setitem d k v)"

text \<open>
  A two-dimensional numpy array: its shape and its entries by (row, column).
  Entries are real numbers (the rounding of floating point is not modelled).
\<close>

record matrix =
  nrows :: nat
  ncols :: nat
  entry :: "nat \<Rightarrow> nat \<Rightarrow> real"

text \<open>\<open>xs[a:b]\<close> for \<open>0 \<le> a \<le> b\<close>: the slice stops at the end of \<open>xs\<close>.\<close>

definition slice :: "'a list \<Rightarrow> nat \<Rightarrow> nat \<Rightarrow> 'a list" where
  "slice xs a b = take (b - a) (drop a xs)"

text \<open>
  \<open>np.reshape(v, (r, c), order="F")\<close>: entry (i, j) is element \<open>i + j * r\<close>;
  numpy raises \<open>ValueError\<close> unless the sizes agree.
\<close>

definition reshape :: "real list \<Rightarrow> nat \<Rightarrow> nat \<Rightarrow> error + matrix" where
  "reshape v r c =
     (if length v = r * c
      then Inr \<lparr>nrows = r, ncols = c, entry = (\<lambda>i j. v ! (i + j * r))\<rparr>
      else Inl ValueError)"

text \<open>\<open>np.ravel(M, order="F")\<close>: the columns of M one after the other.\<close>

definition ravel :: "matrix \<Rightarrow> real list" where
  "ravel M = concat (map (\<lambda>j. map (\<lambda>i. entry M i j) [0..<nrows M]) [0..<ncols M])"

section \<open>The parameter codec\<close>

text \<open>
  The architecture maps a layer index to its number of units
  (\<open>self.architecture\<close>); unit counts are natural numbers.
\<close>

type_synonym architecture = "nat pydict"

text \<open>The body of the loop of \<open>reshapeParams\<close> (lines 203 to 206).\<close>

definition reshapeParams_step ::
  "architecture \<Rightarrow> real list \<Rightarrow> int \<Rightarrow> matrix pydict \<times> nat \<Rightarrow> error + matrix pydict \<times> nat" where
  "reshapeParams_step arch params layer st =
     (case st of (thetas, lastIndex) \<Rightarrow>
      (case getitem arch layer of Inl e \<Rightarrow> Inl e | Inr al \<Rightarrow>
       (case getitem arch (layer - 1) of Inl e \<Rightarrow> Inl e | Inr al1 \<Rightarrow>
        (case reshape (slice params lastIndex (lastIndex + al * (al1 + 1))) al (al1 + 1) of
           Inl e \<Rightarrow> Inl e
         | Inr M \<Rightarrow> Inr (setitem thetas layer M, lastIndex + al * (al1 + 1))))))"

definition reshapeParams :: "architecture \<Rightarrow> real list \<Rightarrow> error + matrix pydict" where
  "reshapeParams arch params =
     (case getitem arch 1 of Inl e \<Rightarrow> Inl e | Inr a1 \<Rightarrow>
      (case getitem arch 0 of Inl e \<Rightarrow> Inl e | Inr a0 \<Rightarrow>
       (case reshape (slice params 0 (a1 * (a0 + 1))) a1 (a0 + 1) of Inl e \<Rightarrow> Inl e | Inr M1 \<Rightarrow>
        (case foldE (reshapeParams_step arch params) (drop 2 (keys arch))
                ([(1, M1)], a1 * (a0 + 1)) of
           Inl e \<Rightarrow> Inl e
         | Inr (thetas, lastIndex) \<Rightarrow> Inr thetas))))"

text \<open>
  The last four lines of \<open>backProp\<close> (289 to 292): the matrices of a dictionary
  flattened column-major and concatenated, entry 1 first, then the entries after
  the first key in the dictionary's order.
\<close>

definition flatten :: "matrix pydict \<Rightarrow> error + real list" where
  "flatten grads =
     (case getitem grads 1 of Inl e \<Rightarrow> Inl e | Inr G1 \<Rightarrow>
      foldE (\<lambda>layer gradients.
               case getitem grads layer of Inl e \<Rightarrow> Inl e
               | Inr G \<Rightarrow> Inr (gradients @ ravel G))
            (drop 1 (keys grads)) (ravel G1))"

text \<open>
  The architecture with layer sizes \<open>sizes\<close> (layer l has \<open>sizes ! l\<close> units):
  the keys are 0 to N, those from 2 on listed in ascending order; the keys 0 and
  1 come first, in either order.
\<close>

definition layered :: "nat list \<Rightarrow> architecture \<Rightarrow> bool" where
  "layered sizes arch \<longleftrightarrow>
     2 \<le> length sizes \<and> length arch = length sizes \<and>
     set (take 2 (keys arch)) = {0, 1} \<and>
     drop 2 (keys arch) = map int [2..<length sizes] \<and>
     (\<forall>l < length sizes. map_of arch (int l) = Some (sizes ! l))"

text \<open>The number of parameters: the sum of \<open>sizes[l+1] * (sizes[l] + 1)\<close>.\<close>

definition paramCount :: "nat list \<Rightarrow> nat" where
  "paramCount sizes = (\<Sum>l \<leftarrow> [0..<length sizes - 1]. sizes ! (l + 1) * (sizes ! l + 1))"

text \<open>
  Where the parameters of layer k end in the vector (the sum of the first k
  terms of \<open>paramCount\<close>), and the matrix \<open>reshapeParams\<close> builds for layer l.
\<close>

definition offs :: "nat list \<Rightarrow> nat \<Rightarrow> nat" where
  "offs sizes k = (\<Sum>l \<leftarrow> [0..<k]. sizes ! (l + 1) * (sizes ! l + 1))"

definition layerMatrix :: "nat list \<Rightarrow> real list \<Rightarrow> nat \<Rightarrow> matrix" where
  "layerMatrix sizes v l =
     \<lparr>nrows = sizes ! l, ncols = sizes ! (l - 1) + 1,
      entry = (\<lambda>i j. slice v (offs sizes (l - 1)) (offs sizes l) ! (i + j * (sizes ! l)))\<rparr>"

text \<open>Unflattening a vector and flattening the result again.\<close>

definition flatten_reshapeParams :: "architecture \<Rightarrow> real list \<Rightarrow> error + real list" where
  "flatten_reshapeParams arch params =
     (case reshapeParams arch params of Inl e \<Rightarrow> Inl e | Inr thetas \<Rightarrow> flatten thetas)"

section \<open>The network object\<close>

text \<open>
  The values an attribute of a \<open>NeuralNetwork\<close> instance can hold, and the
  instance as its \<open>__dict__\<close>: a map from attribute names to values.
\<close>

datatype optimizer = fmin_cg | fmin_bfgs

datatype pyval =
    PyNone | PyInt int | PyFloat real | PyStr string
  | PyDict architecture | PyArray "real list" | PyFunc optimizer

type_synonym network = "string \<rightharpoonup> pyval"

text \<open>The table \<open>scipy_optimisers\<close> of \<open>__init__\<close>.\<close>

definition scipy_optimisers :: "string \<rightharpoonup> optimizer" where
  "scipy_optimisers =
     [''fmin_cg'' \<mapsto> fmin_cg, ''fmin_bfgs'' \<mapsto> fmin_bfgs]"

text \<open>
  \<open>__init__\<close>: stores the options as attributes, the optimiser looked up in the
  table (\<open>NotImplementedError\<close> when it is not there), and \<open>_trainedParams\<close>.
\<close>

definition init :: "pyval \<Rightarrow> pyval \<Rightarrow> pyval \<Rightarrow> string \<Rightarrow> pyval \<Rightarrow> error + network" where
  "init architecture LAMBDA neuron optimiser maxiter =
     (case scipy_optimisers optimiser of
        None \<Rightarrow> Inl NotImplementedError
      | Some f \<Rightarrow>
          Inr [''architecture'' \<mapsto> architecture, ''LAMBDA'' \<mapsto> LAMBDA,
               ''neuron'' \<mapsto> neuron, ''maxiter'' \<mapsto> maxiter,
               ''optimiser'' \<mapsto> PyFunc f, ''_trainedParams'' \<mapsto> PyNone])"

text \<open>\<open>setattr\<close>: stores the value when the name is in \<open>__dict__\<close>, raises otherwise.\<close>

definition setattr :: "network \<Rightarrow> string \<Rightarrow> pyval \<Rightarrow> error + network" where
  "setattr self parameter v =
     (if self parameter \<noteq> None then Inr (self(parameter \<mapsto> v)) else Inl AttributeError)"

text \<open>
  \<open>set_params\<close>: the keyword arguments in their order. An exception leaves the
  instance as the earlier assignments made it, so the result is the exception
  (if any) together with the instance.
\<close>

fun set_params :: "network \<Rightarrow> (string \<times> pyval) list \<Rightarrow> error option \<times> network" where
  "set_params self [] = (None, self)"
| "set_params self ((parameter, v) # parameters) =
     (case setattr self parameter v of
        Inl e \<Rightarrow> (Some e, self)
      | Inr self' \<Rightarrow> set_params self' parameters)"

text \<open>The five options \<open>get_params\<close> lists: the documented configuration.\<close>

definition get_params_keys :: "string list" where
  "get_params_keys = [''architecture'', ''LAMBDA'', ''neuron'', ''optimiser'', ''maxiter'']"

section \<open>Resolving the architecture in fit\<close>

text \<open>\<open>np.squeeze\<close> on a shape: the dimensions of size 1 are removed.\<close>

definition squeeze :: "nat list \<Rightarrow> nat list" where
  "squeeze shape = filter (\<lambda>d. d \<noteq> 1) shape"

text \<open>\<open>len(np.unique(y))\<close>: the number of distinct labels.\<close>

definition numUnique :: "int list \<Rightarrow> nat" where
  "numUnique y = length (remdups y)"

text \<open>
  Lines 98 to 104 of \<open>fit\<close>: layer 0 gets the number of features, and a layer
  with index \<open>len(keys)\<close> gets the size of the output.
\<close>

definition resolveArchitecture :: "architecture \<Rightarrow> nat \<Rightarrow> int list \<Rightarrow> architecture" where
  "resolveArchitecture arch n y =
     (let arch0 = setitem arch 0 n in
      if numUnique y > 2 then setitem arch0 (int (length (keys arch0))) (numUnique y)
      else if numUnique y = 2 then setitem arch0 (int (length (keys arch0))) 1
      else arch0)"

text \<open>
  \<open>fit\<close>, with X given by its shape (the only thing \<open>fit\<close> reads of X before it
  stops) and y by its labels. Unpacking \<open>m, n = np.shape(X)\<close> raises
  \<open>ValueError\<close> unless the squeezed X has two dimensions. The item assignment
  \<open>self.architecture[0] = n\<close> works on a dictionary and on a non-empty array
  (\<open>IndexError\<close> on an empty one) and raises \<open>TypeError\<close> on the other values;
  on an array, \<open>self.architecture.keys()\<close> then raises \<open>AttributeError\<close>, which
  is reached when y has two or more distinct labels. Where nothing was raised so
  far, line 130 calls the bare name \<open>oneHotEncoding\<close>, which the module does not
  define: the \<open>NameError\<close> is not caught by \<open>except AttributeError\<close>, so
  \<open>fit\<close> ends there, the architecture already changed.
\<close>

definition fit :: "network \<Rightarrow> nat list \<Rightarrow> int list \<Rightarrow> error option \<times> network" where
  "fit self X y =
     (case squeeze X of
        [m, n] \<Rightarrow>
          (case self ''architecture'' of
             None \<Rightarrow> (Some AttributeError, self)
           | Some (PyDict arch) \<Rightarrow>
               (Some NameError, self(''architecture'' \<mapsto> PyDict (resolveArchitecture arch n y)))
           | Some (PyArray xs) \<Rightarrow>
               (if xs = [] then (Some IndexError, self)
                else (if numUnique y \<ge> 2 then Some AttributeError else Some NameError,
                      self(''architecture'' \<mapsto> PyArray (xs[0 := real n]))))
           | Some _ \<Rightarrow> (Some TypeError, self))
      | _ \<Rightarrow> (Some ValueError, self))"

text \<open>The architecture of an instance, when the attribute holds a dictionary.\<close>

definition architectureOf :: "network \<Rightarrow> architecture" where
  "architectureOf self = (case self ''architecture'' of Some (PyDict arch) \<Rightarrow> arch | _ \<Rightarrow> [])"

section \<open>The label encoder\<close>

definition zeros :: "nat \<Rightarrow> nat \<Rightarrow> matrix" where
  "zeros r c = \<lparr>nrows = r, ncols = c, entry = (\<lambda>i j. 0)\<rparr>"

definition transpose_matrix :: "matrix \<Rightarrow> matrix" where
  "transpose_matrix M = \<lparr>nrows = ncols M, ncols = nrows M, entry = (\<lambda>i j. entry M j i)\<rparr>"

text \<open>
  \<open>M[i, t] = x\<close> on an array with c columns: a negative t counts from the last
  column, and an index outside the array raises \<open>IndexError\<close>.
\<close>

definition setentry :: "matrix \<Rightarrow> nat \<Rightarrow> int \<Rightarrow> real \<Rightarrow> error + matrix" where
  "setentry M i t x =
     (let c = (if t < 0 then t + int (ncols M) else t) in
      if i < nrows M \<and> 0 \<le> c \<and> c < int (ncols M)
      then Inr (M\<lparr>entry := (\<lambda>i' j'. if i' = i \<and> j' = nat c then x else entry M i' j')\<rparr>)
      else Inl IndexError)"

text \<open>The body of \<open>oneHotEncoding\<close> (lines 234 to 243), on the vector \<open>targets\<close>.\<close>

definition oneHotEncoding_body :: "int list \<Rightarrow> error + matrix" where
  "oneHotEncoding_body targets =
     (let numClasses = numUnique targets in
      case foldE (\<lambda>i indicatorFunction. setentry indicatorFunction i (targets ! i) 1)
             [0..<length targets] (zeros (length targets) numClasses) of
        Inl e \<Rightarrow> Inl e
      | Inr indicatorFunction \<Rightarrow> Inr (transpose_matrix indicatorFunction))"

text \<open>
  \<open>oneHotEncoding(self, y)\<close>: the parameter is named \<open>y\<close>, and the body reads
  \<open>targets\<close>, which is then a global name, looked up in the module's globals
  (\<open>NameError\<close> when it is not there).
\<close>

definition oneHotEncoding :: "(string \<rightharpoonup> int list) \<Rightarrow> int list \<Rightarrow> error + matrix" where
  "oneHotEncoding globals y =
     (case globals ''targets'' of
        None \<Rightarrow> Inl NameError
      | Some targets \<Rightarrow> oneHotEncoding_body targets)"

text \<open>
  The label vectors among the globals of the module \<open>NeuralNet\<close>: none (it binds
  \<open>np\<close> and \<open>NeuralNetwork\<close> only).
\<close>

definition NeuralNet_globals :: "string \<rightharpoonup> int list" where
  "NeuralNet_globals = Map.empty"

text \<open>The columns of a matrix, as lists.\<close>

definition columns :: "matrix \<Rightarrow> real list list" where
  "columns M = map (\<lambda>j. map (\<lambda>i. entry M i j) [0..<nrows M]) [0..<ncols M]"

text \<open>The instance \<open>NeuralNetwork()\<close> makes with the default arguments.\<close>

definition newNetwork :: network where
  "newNetwork =
     [''architecture'' \<mapsto> PyDict [(1, 25)], ''LAMBDA'' \<mapsto> PyFloat 0,
      ''neuron'' \<mapsto> PyStr ''sigmoid'', ''maxiter'' \<mapsto> PyInt 1000,
      ''optimiser'' \<mapsto> PyFunc fmin_cg, ''_trainedParams'' \<mapsto> PyNone]"

section \<open>Array operations\<close>

text \<open>\<open>np.dot\<close> on two-dimensional arrays: \<open>ValueError\<close> unless the shapes fit.\<close>

definition dot :: "matrix \<Rightarrow> matrix \<Rightarrow> error + matrix" where
  "dot A B =
     (if ncols A = nrows B
      then Inr \<lparr>nrows = nrows A, ncols = ncols B,
                entry = (\<lambda>i j. \<Sum>k \<leftarrow> [0..<ncols A]. entry A i k * entry B k j)\<rparr>
      else Inl ValueError)"

text \<open>A function applied to every entry (a neuron's \<open>fire\<close>, a scalar factor).\<close>

definition map_matrix :: "(real \<Rightarrow> real) \<Rightarrow> matrix \<Rightarrow> matrix" where
  "map_matrix f M = M\<lparr>entry := (\<lambda>i j. f (entry M i j))\<rparr>"

definition scale :: "real \<Rightarrow> matrix \<Rightarrow> matrix" where
  "scale c M = map_matrix (\<lambda>x. c * x) M"

text \<open>\<open>M[1:, :]\<close> and \<open>M[:, 1:]\<close>.\<close>

definition drop_first_row :: "matrix \<Rightarrow> matrix" where
  "drop_first_row M = \<lparr>nrows = nrows M - 1, ncols = ncols M, entry = (\<lambda>i j. entry M (Suc i) j)\<rparr>"

definition drop_first_col :: "matrix \<Rightarrow> matrix" where
  "drop_first_col M = \<lparr>nrows = nrows M, ncols = ncols M - 1, entry = (\<lambda>i j. entry M i (Suc j))\<rparr>"

text \<open>
  \<open>np.concatenate((np.tile(1, (1, m)), A), axis=0)\<close>: a row of ones on top of A,
  \<open>ValueError\<close> unless A has m columns.
\<close>

definition add_bias_row :: "nat \<Rightarrow> matrix \<Rightarrow> error + matrix" where
  "add_bias_row m A =
     (if ncols A = m
      then Inr \<lparr>nrows = Suc (nrows A), ncols = m,
                entry = (\<lambda>i j. if i = 0 then 1 else entry A (i - 1) j)\<rparr>
      else Inl ValueError)"

text \<open>
  Broadcasting of two-dimensional arrays: two dimensions fit when they are equal
  or one of them is 1, and numpy raises \<open>ValueError\<close> when they do not.
\<close>

definition bdim :: "nat \<Rightarrow> nat \<Rightarrow> nat option" where
  "bdim a b = (if a = b then Some a else if a = 1 then Some b else if b = 1 then Some a else None)"

definition broadcast :: "(real \<Rightarrow> real \<Rightarrow> real) \<Rightarrow> matrix \<Rightarrow> matrix \<Rightarrow> error + matrix" where
  "broadcast f A B =
     (case bdim (nrows A) (nrows B) of
        None \<Rightarrow> Inl ValueError
      | Some r \<Rightarrow>
          (case bdim (ncols A) (ncols B) of
             None \<Rightarrow> Inl ValueError
           | Some c \<Rightarrow>
               Inr \<lparr>nrows = r, ncols = c,
                    entry = (\<lambda>i j. f (entry A (if nrows A = 1 then 0 else i)
                                             (if ncols A = 1 then 0 else j))
                                    (entry B (if nrows B = 1 then 0 else i)
                                             (if ncols B = 1 then 0 else j)))\<rparr>))"

text \<open>
  \<open>G[:, 1:] = R\<close>: R is broadcast to the shape of \<open>G[:, 1:]\<close> (\<open>ValueError\<close>
  when it does not fit); column 0 of G is not written.
\<close>

definition assign_from_col1 :: "matrix \<Rightarrow> matrix \<Rightarrow> error + matrix" where
  "assign_from_col1 G R =
     (if (nrows R = nrows G \<or> nrows R = 1) \<and> (ncols R = ncols G - 1 \<or> ncols R = 1)
      then Inr (G\<lparr>entry := (\<lambda>i j. if j = 0 then entry G i j
                                   else entry R (if nrows R = 1 then 0 else i)
                                                (if ncols R = 1 then 0 else j - 1))\<rparr>)
      else Inl ValueError)"

text \<open>\<open>list(d.keys())[-1]\<close>: \<open>IndexError\<close> on an empty dictionary.\<close>

definition lastkey :: "'v pydict \<Rightarrow> error + int" where
  "lastkey d = (if d = [] then Inl IndexError else Inr (last (keys d)))"

section \<open>Forward propagation\<close>

text \<open>
  \<open>np.sum(np.multiply(T[:,1:], T[:,1:]))\<close>: the sum of the squares of the entries
  of T outside column 0.
\<close>

definition sumsq_nobias :: "matrix \<Rightarrow> real" where
  "sumsq_nobias T =
     (let A = drop_first_col T in
      \<Sum>i \<leftarrow> [0..<nrows A]. \<Sum>j \<leftarrow> [0..<ncols A]. entry A i j * entry A i j)"

text \<open>The body of the loop of \<open>feedForward\<close> (lines 255 to 257).\<close>

definition feedForward_step ::
  "matrix pydict \<Rightarrow> nat \<Rightarrow> (real \<Rightarrow> real) \<Rightarrow> int \<Rightarrow> matrix pydict \<times> real
   \<Rightarrow> error + matrix pydict \<times> real" where
  "feedForward_step thetas m neuron layer st =
     (case st of (activs, regTerm) \<Rightarrow>
      (case getitem thetas layer of Inl e \<Rightarrow> Inl e | Inr T \<Rightarrow>
       (case getitem activs layer of Inl e \<Rightarrow> Inl e | Inr A \<Rightarrow>
        (case dot T A of Inl e \<Rightarrow> Inl e | Inr z \<Rightarrow>
         (case add_bias_row m (map_matrix neuron z) of Inl e \<Rightarrow> Inl e | Inr A' \<Rightarrow>
            Inr (setitem activs (layer + 1) A', regTerm + sumsq_nobias T))))))"

text \<open>
  \<open>feedForward\<close> up to the hypothesis \<open>neuron(z)\<close> (lines 249 to 261). The neuron
  is the activation function, applied to every entry.
\<close>

definition feedForward_propagate ::
  "matrix pydict \<Rightarrow> matrix \<Rightarrow> real \<Rightarrow> nat \<Rightarrow> (real \<Rightarrow> real)
   \<Rightarrow> error + matrix \<times> matrix pydict \<times> real" where
  "feedForward_propagate thetas input regTerm m neuron =
     (case foldE (feedForward_step thetas m neuron) (butlast (keys thetas))
             ([(1, input)], regTerm) of
        Inl e \<Rightarrow> Inl e
      | Inr (activs, regTerm1) \<Rightarrow>
          (case lastkey thetas of Inl e \<Rightarrow> Inl e | Inr L \<Rightarrow>
           (case getitem thetas L of Inl e \<Rightarrow> Inl e | Inr T \<Rightarrow>
            (case lastkey activs of Inl e \<Rightarrow> Inl e | Inr La \<Rightarrow>
             (case getitem activs La of Inl e \<Rightarrow> Inl e | Inr A \<Rightarrow>
              (case dot T A of Inl e \<Rightarrow> Inl e | Inr z \<Rightarrow>
                 Inr (map_matrix neuron z, activs, regTerm1 + sumsq_nobias T)))))))"

text \<open>\<open>c in M\<close>, and \<open>M[np.where(M == c)] = f(M[np.where(M == c)])\<close>.\<close>

definition contains :: "real \<Rightarrow> matrix \<Rightarrow> bool" where
  "contains c M = list_ex (\<lambda>i. list_ex (\<lambda>j. entry M i j = c) [0..<ncols M]) [0..<nrows M]"

definition update_where :: "real \<Rightarrow> (real \<Rightarrow> real) \<Rightarrow> matrix \<Rightarrow> matrix" where
  "update_where c f M = M\<lparr>entry := (\<lambda>i j. if entry M i j = c then f (entry M i j) else entry M i j)\<rparr>"

text \<open>The checks for numerical instabilities (lines 263 to 269).\<close>

definition feedForward_stabilise :: "matrix \<Rightarrow> matrix" where
  "feedForward_stabilise hypothesis =
     (let h1 = (if contains 1 hypothesis
                then update_where 1 (\<lambda>x. x - 1 / 10 ^ 9) hypothesis else hypothesis)
      in if contains 0 h1 then update_where 0 (\<lambda>x. x + 1 / 10 ^ 9) h1 else h1)"

definition feedForward ::
  "matrix pydict \<Rightarrow> matrix \<Rightarrow> real \<Rightarrow> nat \<Rightarrow> (real \<Rightarrow> real)
   \<Rightarrow> error + matrix \<times> matrix pydict \<times> real" where
  "feedForward thetas input regTerm m neuron =
     (case feedForward_propagate thetas input regTerm m neuron of
        Inl e \<Rightarrow> Inl e
      | Inr (hypothesis, activs, regTerm') \<Rightarrow>
          Inr (feedForward_stabilise hypothesis, activs, regTerm'))"

section \<open>Back propagation\<close>

text \<open>The body of the first loop of \<open>backProp\<close> (lines 282 to 284).\<close>

definition backProp_delta ::
  "matrix pydict \<Rightarrow> matrix pydict \<Rightarrow> (real \<Rightarrow> real) \<Rightarrow> int \<Rightarrow> matrix pydict
   \<Rightarrow> error + matrix pydict" where
  "backProp_delta thetas activs dneuron layer deltas =
     (case getitem thetas (layer - 1) of Inl e \<Rightarrow> Inl e | Inr T \<Rightarrow>
      (case getitem deltas layer of Inl e \<Rightarrow> Inl e | Inr D \<Rightarrow>
       (case dot (transpose_matrix T) D of Inl e \<Rightarrow> Inl e | Inr P \<Rightarrow>
        (case getitem activs (layer - 1) of Inl e \<Rightarrow> Inl e | Inr A \<Rightarrow>
         (case broadcast (\<lambda>x y. x * y) P (map_matrix dneuron A) of Inl e \<Rightarrow> Inl e | Inr d \<Rightarrow>
            Inr (setitem deltas (layer - 1) (drop_first_row d)))))))"

text \<open>
  The body of the second loop (lines 286 to 288). \<open>1/m\<close> raises
  \<open>ZeroDivisionError\<close> for m = 0.
\<close>

definition backProp_grad ::
  "real \<Rightarrow> matrix pydict \<Rightarrow> matrix pydict \<Rightarrow> matrix pydict \<Rightarrow> real \<Rightarrow> int \<Rightarrow> matrix pydict
   \<Rightarrow> error + matrix pydict" where
  "backProp_grad LAMBDA thetas deltas activs m layer grads =
     (if m = 0 then Inl ZeroDivisionError else
      (case getitem deltas (layer + 1) of Inl e \<Rightarrow> Inl e | Inr D \<Rightarrow>
       (case getitem activs layer of Inl e \<Rightarrow> Inl e | Inr A \<Rightarrow>
        (case dot D (transpose_matrix A) of Inl e \<Rightarrow> Inl e | Inr P \<Rightarrow>
         (case getitem thetas layer of Inl e \<Rightarrow> Inl e | Inr T \<Rightarrow>
          (case broadcast (\<lambda>x y. x + y) (drop_first_col (scale (1 / m) P))
                  (scale (1 / m) (scale LAMBDA (drop_first_col T))) of
             Inl e \<Rightarrow> Inl e
           | Inr R \<Rightarrow>
               (case assign_from_col1 (scale (1 / m) P) R of Inl e \<Rightarrow> Inl e | Inr grad \<Rightarrow>
                  Inr (setitem grads layer grad))))))))"

text \<open>
  \<open>backProp\<close> up to the dictionary \<open>grads\<close> (lines 276 to 288), with
  \<open>self.architecture\<close> and \<open>self.LAMBDA\<close> as arguments; \<open>range(numLayers, 2, -1)\<close>
  runs from numLayers down to 3.
\<close>

definition backProp_grads ::
  "architecture \<Rightarrow> real \<Rightarrow> matrix pydict \<Rightarrow> matrix \<Rightarrow> matrix pydict \<Rightarrow> matrix \<Rightarrow> real
   \<Rightarrow> (real \<Rightarrow> real) \<Rightarrow> error + matrix pydict" where
  "backProp_grads arch LAMBDA thetas hypothesis activs targets m dneuron =
     (let numLayers = length (keys arch) in
      case broadcast (\<lambda>x y. x - y) hypothesis targets of Inl e \<Rightarrow> Inl e | Inr d \<Rightarrow>
      (case foldE (backProp_delta thetas activs dneuron) (map int (rev [3..<Suc numLayers]))
              [(int numLayers, d)] of
         Inl e \<Rightarrow> Inl e
       | Inr deltas \<Rightarrow>
           foldE (backProp_grad LAMBDA thetas deltas activs m) (keys thetas) []))"

definition backProp ::
  "architecture \<Rightarrow> real \<Rightarrow> matrix pydict \<Rightarrow> matrix \<Rightarrow> matrix pydict \<Rightarrow> matrix \<Rightarrow> real
   \<Rightarrow> (real \<Rightarrow> real) \<Rightarrow> error + real list" where
  "backProp arch LAMBDA thetas hypothesis activs targets m dneuron =
     (case backProp_grads arch LAMBDA thetas hypothesis activs targets m dneuron of
        Inl e \<Rightarrow> Inl e
      | Inr grads \<Rightarrow> flatten grads)"

text \<open>A gradient matrix with everything outside column 0 set to zero.\<close>

definition bias_column :: "matrix \<Rightarrow> matrix" where
  "bias_column G = G\<lparr>entry := (\<lambda>i j. if j = 0 then entry G i j else 0)\<rparr>"

text \<open>Building a matrix from its rows, for examples.\<close>

definition of_rows :: "real list list \<Rightarrow> matrix" where
  "of_rows rs = \<lparr>nrows = length rs, ncols = length (hd rs), entry = (\<lambda>i j. rs ! i ! j)\<rparr>"

definition rows_of :: "matrix \<Rightarrow> real list list" where
  "rows_of M = map (\<lambda>i. map (\<lambda>j. entry M i j) [0..<ncols M]) [0..<nrows M]"

section \<open>Shapes\<close>

definition shaped :: "nat \<Rightarrow> nat \<Rightarrow> matrix \<Rightarrow> bool" where
  "shaped r c M \<longleftrightarrow> nrows M = r \<and> ncols M = c"

definition shaped_at :: "matrix pydict \<Rightarrow> int \<Rightarrow> nat \<Rightarrow> nat \<Rightarrow> bool" where
  "shaped_at d k r c = (case getitem d k of Inl e \<Rightarrow> False | Inr M \<Rightarrow> shaped r c M)"

text \<open>
  The arguments of \<open>backProp\<close> for a network with layer sizes \<open>sizes\<close> and a batch
  of \<open>mm\<close> examples: \<open>thetas\<close> has the layers 1 to N in this order, layer l with
  \<open>sizes ! l\<close> rows and \<open>sizes ! (l - 1) + 1\<close> columns; the activation that feeds
  layer l has \<open>sizes ! (l - 1) + 1\<close> rows (the units of layer l - 1 and the bias)
  and \<open>mm\<close> columns; hypothesis and targets have one row for each output unit.
\<close>

definition backProp_shapes ::
  "nat list \<Rightarrow> nat \<Rightarrow> matrix pydict \<Rightarrow> matrix \<Rightarrow> matrix pydict \<Rightarrow> matrix \<Rightarrow> bool" where
  "backProp_shapes sizes mm thetas hypothesis activs targets \<longleftrightarrow>
     keys thetas = map int [1..<length sizes] \<and>
     list_all (\<lambda>l. shaped_at thetas (int l) (sizes ! l) (sizes ! (l - 1) + 1)
                   \<and> shaped_at activs (int l) (sizes ! (l - 1) + 1) mm)
              [1..<length sizes] \<and>
     shaped (sizes ! (length sizes - 1)) mm hypothesis \<and>
     shaped (sizes ! (length sizes - 1)) mm targets"

text \<open>
  The dictionary \<open>deltas\<close> once the layers k to N + 1 are filled in, and a
  dictionary of gradients with the layers 1 to k - 1, shaped like \<open>thetas\<close>.
\<close>

definition deltas_shapes :: "nat list \<Rightarrow> nat \<Rightarrow> nat \<Rightarrow> matrix pydict \<Rightarrow> bool" where
  "deltas_shapes sizes mm k deltas \<longleftrightarrow>
     list_all (\<lambda>l. shaped_at deltas (int l) (sizes ! (l - 1)) mm) [k..<Suc (length sizes)]"

definition grads_shapes :: "nat list \<Rightarrow> nat \<Rightarrow> matrix pydict \<Rightarrow> bool" where
  "grads_shapes sizes k grads \<longleftrightarrow>
     keys grads = map int [1..<k] \<and>
     list_all (\<lambda>l. shaped_at grads (int l) (sizes ! l) (sizes ! (l - 1) + 1)) [1..<k]"

text \<open>Two arrays of the same shape with the same entries.\<close>

definition same_entries :: "matrix \<Rightarrow> matrix \<Rightarrow> bool" where
  "same_entries A B \<longleftrightarrow>
     nrows A = nrows B \<and> ncols A = ncols B \<and>
     list_all (\<lambda>i. list_all (\<lambda>j. entry A i j = entry B i j) [0..<ncols A]) [0..<nrows A]"

definition same_at :: "matrix pydict \<Rightarrow> matrix pydict \<Rightarrow> int \<Rightarrow> bool" where
  "same_at d d' k =
     (case getitem d k of
        Inl e \<Rightarrow> False
      | Inr A \<Rightarrow> (case getitem d' k of Inl e \<Rightarrow> False | Inr B \<Rightarrow> same_entries A B))"

text \<open>
  Weight matrices for the layer sizes \<open>sizes\<close>, and the activations of the layers
  1 to k of a batch of \<open>mm\<close> examples.
\<close>

definition thetas_shapes :: "nat list \<Rightarrow> matrix pydict \<Rightarrow> bool" where
  "thetas_shapes sizes thetas \<longleftrightarrow>
     keys thetas = map int [1..<length sizes] \<and>
     list_all (\<lambda>l. shaped_at thetas (int l) (sizes ! l) (sizes ! (l - 1) + 1)) [1..<length sizes]"

definition activs_shapes :: "nat list \<Rightarrow> nat \<Rightarrow> nat \<Rightarrow> matrix pydict \<Rightarrow> bool" where
  "activs_shapes sizes mm k activs \<longleftrightarrow>
     keys activs = map int [1..<Suc k] \<and>
     list_all (\<lambda>l. shaped_at activs (int l) (sizes ! (l - 1) + 1) mm) [1..<Suc k]"

section \<open>The parameter codec: round trip and wrong lengths\<close>

lemma concat_chunks:
  "r * c \<le> length v \<Longrightarrow> concat (map (\<lambda>j. take r (drop (j * r) v)) [0..<c]) = take (r * c) v"
proof (induction c)
  case 0
  then show ?case by simp
next
  case (Suc c)
  have le: "r * c \<le> length v" using Suc.prems by (simp add: algebra_simps) 
  have "r * Suc c = r * c + r" by simp
  then have "take (r * Suc c) v = take (r * c) v @ take r (drop (r * c) v)"
    by (simp only: take_add)
  with Suc.IH[OF le] show ?case by (simp add: mult.commute)
qed

lemma column_take_drop:
  assumes "(j + 1) * r \<le> length v"
  shows "map (\<lambda>i. v ! (i + j * r)) [0..<r] = take r (drop (j * r) v)"
proof (rule nth_equalityI)
  show "length (map (\<lambda>i. v ! (i + j * r)) [0..<r]) = length (take r (drop (j * r) v))"
    using assms by (simp add: algebra_simps)
next
  fix i assume "i < length (map (\<lambda>i. v ! (i + j * r)) [0..<r])"
  then have i: "i < r" by simp
  then show "map (\<lambda>i. v ! (i + j * r)) [0..<r] ! i = take r (drop (j * r) v) ! i"
    using assms by (simp add: algebra_simps)
qed

lemma ravel_reshape:
  assumes "reshape v r c = Inr M"
  shows "ravel M = v"
proof -
  have len: "length v = r * c" and M: "M = \<lparr>nrows = r, ncols = c, entry = (\<lambda>i j. v ! (i + j * r))\<rparr>"
    using assms by (auto simp: reshape_def split: if_splits)
  have cols: "map (\<lambda>j. map (\<lambda>i. v ! (i + j * r)) [0..<r]) [0..<c]
      = map (\<lambda>j. take r (drop (j * r) v)) [0..<c]"
  proof (rule map_cong[OF refl])
    fix j assume "j \<in> set [0..<c]"
    then have "j + 1 \<le> c" by simp
    then have "(j + 1) * r \<le> c * r" by (rule mult_le_mono1)
    then have "(j + 1) * r \<le> length v" using len by (simp add: mult.commute)
    then show "map (\<lambda>i. v ! (i + j * r)) [0..<r] = take r (drop (j * r) v)"
      by (rule column_take_drop)
  qed
  have "ravel M = concat (map (\<lambda>j. map (\<lambda>i. v ! (i + j * r)) [0..<r]) [0..<c])"
    by (simp add: ravel_def M)
  also have "\<dots> = concat (map (\<lambda>j. take r (drop (j * r) v)) [0..<c])"
    by (simp only: cols)
  also have "\<dots> = take (r * c) v" by (rule concat_chunks) (simp add: len)
  finally show ?thesis by (simp add: len)
qed

lemma setitem_append: "k \<notin> fst ` set d \<Longrightarrow> setitem d k v = d @ [(k, v)]"
  by (induction d) auto

lemma offs_Suc: "offs sizes (Suc k) = offs sizes k + sizes ! (k + 1) * (sizes ! k + 1)"
  by (simp add: offs_def)

lemma offs_mono: "j \<le> k \<Longrightarrow> offs sizes j \<le> offs sizes k"
  by (induction k) (auto simp: offs_Suc le_Suc_eq)

lemma paramCount_offs: "paramCount sizes = offs sizes (length sizes - 1)"
  by (simp add: paramCount_def offs_def)

lemma layered_getitem:
  "layered sizes arch \<Longrightarrow> l < length sizes \<Longrightarrow> getitem arch (int l) = Inr (sizes ! l)"
  by (simp add: layered_def getitem_def)

lemma step_ok:
  assumes L: "layered sizes arch" and k: "1 \<le> k" "k < length sizes"
    and len: "offs sizes k \<le> length v"
    and fresh: "int k \<notin> fst ` set thetas"
  shows "reshapeParams_step arch v (int k) (thetas, offs sizes (k - 1))
         = Inr (thetas @ [(int k, layerMatrix sizes v k)], offs sizes k)"
proof -
  have g1: "getitem arch (int k) = Inr (sizes ! k)"
    using L k by (simp add: layered_getitem)
  have km: "int k - 1 = int (k - 1)" using k by simp
  have "getitem arch (int (k - 1)) = Inr (sizes ! (k - 1))"
    using L k by (intro layered_getitem) auto
  then have g2: "getitem arch (int k - 1) = Inr (sizes ! (k - 1))"
    by (simp only: km)
  have o: "offs sizes (k - 1) + sizes ! k * (sizes ! (k - 1) + 1) = offs sizes k"
    using k offs_Suc[of sizes "k - 1"] by simp
  have r: "reshape (slice v (offs sizes (k - 1)) (offs sizes k)) (sizes ! k) (sizes ! (k - 1) + 1)
           = Inr (layerMatrix sizes v k)"
    using len o by (simp add: reshape_def slice_def layerMatrix_def)
  show ?thesis
    unfolding reshapeParams_step_def
    by (simp only: prod.case g1 g2 sum.case o r setitem_append[OF fresh])
qed

lemma loop_ok:
  assumes L: "layered sizes arch" and len: "offs sizes (length sizes - 1) \<le> length v"
  shows "2 \<le> k \<Longrightarrow> k \<le> length sizes \<Longrightarrow>
     foldE (reshapeParams_step arch v) (map int [k..<length sizes])
       (map (\<lambda>l. (int l, layerMatrix sizes v l)) [1..<k], offs sizes (k - 1))
     = Inr (map (\<lambda>l. (int l, layerMatrix sizes v l)) [1..<length sizes],
            offs sizes (length sizes - 1))"
proof (induction "length sizes - k" arbitrary: k)
  case 0
  then have "k = length sizes" by simp
  then show ?case by simp
next
  case (Suc d)
  then have k: "1 \<le> k" "k < length sizes" by auto
  have "offs sizes k \<le> offs sizes (length sizes - 1)"
    using k by (intro offs_mono) simp
  then have lk: "offs sizes k \<le> length v" using len by simp
  have fresh: "int k \<notin> fst ` set (map (\<lambda>l. (int l, layerMatrix sizes v l)) [1..<k])"
    by (auto simp: image_iff)
  have step: "reshapeParams_step arch v (int k)
       (map (\<lambda>l. (int l, layerMatrix sizes v l)) [1..<k], offs sizes (k - 1))
     = Inr (map (\<lambda>l. (int l, layerMatrix sizes v l)) [1..<Suc k], offs sizes (Suc k - 1))"
    using step_ok[OF L k lk fresh] k by simp
  have IH: "foldE (reshapeParams_step arch v) (map int [Suc k..<length sizes])
       (map (\<lambda>l. (int l, layerMatrix sizes v l)) [1..<Suc k], offs sizes (Suc k - 1))
     = Inr (map (\<lambda>l. (int l, layerMatrix sizes v l)) [1..<length sizes],
            offs sizes (length sizes - 1))"
    using Suc.hyps(1)[of "Suc k"] Suc.hyps(2) Suc.prems k by simp
  have "[k..<length sizes] = k # [Suc k..<length sizes]"
    using k by (simp add: upt_conv_Cons)
  then show ?case using step IH by simp
qed

lemma layered_drop2: "layered sizes arch \<Longrightarrow> drop 2 (keys arch) = map int [2..<length sizes]"
  by (simp add: layered_def)

lemma layered_len: "layered sizes arch \<Longrightarrow> 2 \<le> length sizes"
  by (simp add: layered_def)

lemma first_ok:
  assumes L: "layered sizes arch" and len: "offs sizes 1 \<le> length v"
  shows "reshape (slice v 0 (sizes ! 1 * (sizes ! 0 + 1))) (sizes ! 1) (sizes ! 0 + 1)
         = Inr (layerMatrix sizes v 1)"
proof -
  have o1: "offs sizes 1 = sizes ! 1 * (sizes ! 0 + 1)" by (simp add: offs_def)
  have o0: "offs sizes 0 = 0" by (simp add: offs_def)
  show ?thesis using len o1 by (simp add: reshape_def slice_def layerMatrix_def o0)
qed

lemma reshapeParams_ok:
  assumes L: "layered sizes arch" and len: "paramCount sizes \<le> length v"
  shows "reshapeParams arch v
         = Inr (map (\<lambda>l. (int l, layerMatrix sizes v l)) [1..<length sizes])"
proof -
  have n: "2 \<le> length sizes" using L by (rule layered_len)
  have len': "offs sizes (length sizes - 1) \<le> length v"
    using len by (simp add: paramCount_offs)
  have "offs sizes 1 \<le> offs sizes (length sizes - 1)" using n by (intro offs_mono) simp
  then have l1: "offs sizes 1 \<le> length v" using len' by simp
  have g1: "getitem arch 1 = Inr (sizes ! 1)"
    using layered_getitem[OF L, of 1] n by simp
  have "0 < length sizes" using n by linarith
  from layered_getitem[OF L this] have g0: "getitem arch 0 = Inr (sizes ! 0)"
    by simp
  have o1: "sizes ! 1 * (sizes ! 0 + 1) = offs sizes (2 - 1)" by (simp add: offs_def)
  have init: "[(1, layerMatrix sizes v 1)] = map (\<lambda>l. (int l, layerMatrix sizes v l)) [1..<2]"
    by (simp add: upt_rec)
  have loop: "foldE (reshapeParams_step arch v) (drop 2 (keys arch))
       ([(1, layerMatrix sizes v 1)], sizes ! 1 * (sizes ! 0 + 1))
     = Inr (map (\<lambda>l. (int l, layerMatrix sizes v l)) [1..<length sizes],
            offs sizes (length sizes - 1))"
    unfolding layered_drop2[OF L] init o1
    using loop_ok[OF L len', of 2] n by simp
  show ?thesis
    unfolding reshapeParams_def
    by (simp only: g1 g0 sum.case first_ok[OF L l1] loop prod.case)
qed

lemma map_of_layers:
  "x \<in> set xs \<Longrightarrow> map_of (map (\<lambda>l. (int l, f l)) xs) (int x) = Some (f x)"
  by (induction xs) auto

lemma getitem_layers:
  "a \<le> l \<Longrightarrow> l < b \<Longrightarrow> getitem (map (\<lambda>l. (int l, f l)) [a..<b]) (int l) = Inr (f l)"
  by (simp add: getitem_def map_of_layers)

lemma flatten_loop:
  "(\<And>k. k \<in> set ks \<Longrightarrow> getitem d (int k) = Inr (f k)) \<Longrightarrow>
   foldE (\<lambda>layer gradients. case getitem d layer of Inl e \<Rightarrow> Inl e
                             | Inr G \<Rightarrow> Inr (gradients @ ravel G))
         (map int ks) acc
   = Inr (acc @ concat (map (\<lambda>k. ravel (f k)) ks))"
  by (induction ks arbitrary: acc) auto

lemma flatten_layers:
  assumes n: "2 \<le> n"
  shows "flatten (map (\<lambda>l. (int l, f l)) [1..<n]) = Inr (concat (map (\<lambda>l. ravel (f l)) [1..<n]))"
proof -
  let ?d = "map (\<lambda>l. (int l, f l)) [1..<n]"
  have g1: "getitem ?d 1 = Inr (f 1)" using getitem_layers[of 1 1 n f] n by simp
  have ks: "drop 1 (keys ?d) = map int [2..<n]"
    using n by (simp add: keys_def comp_def upt_conv_Cons drop_map numeral_2_eq_2)
  have "\<And>k. k \<in> set [2..<n] \<Longrightarrow> getitem ?d (int k) = Inr (f k)"
    by (rule getitem_layers) auto
  then have loop: "foldE (\<lambda>layer gradients. case getitem ?d layer of Inl e \<Rightarrow> Inl e
                             | Inr G \<Rightarrow> Inr (gradients @ ravel G))
         (map int [2..<n]) (ravel (f 1))
     = Inr (ravel (f 1) @ concat (map (\<lambda>k. ravel (f k)) [2..<n]))"
    by (rule flatten_loop)
  have "1 < n" using n by simp
  then have "[1..<n] = 1 # [Suc 1..<n]" by (rule upt_conv_Cons)
  then have "[1..<n] = 1 # [2..<n]" by (simp only: Suc_1)
  then have c: "concat (map (\<lambda>l. ravel (f l)) [1..<n])
           = ravel (f 1) @ concat (map (\<lambda>k. ravel (f k)) [2..<n])" by simp
  show ?thesis unfolding flatten_def by (simp only: g1 sum.case ks loop c)
qed

lemma ravel_layerMatrix:
  assumes k: "1 \<le> k" and len: "offs sizes k \<le> length v"
  shows "ravel (layerMatrix sizes v k) = slice v (offs sizes (k - 1)) (offs sizes k)"
proof -
  have o: "offs sizes k = offs sizes (k - 1) + sizes ! k * (sizes ! (k - 1) + 1)"
    using k offs_Suc[of sizes "k - 1"] by simp
  have "reshape (slice v (offs sizes (k - 1)) (offs sizes k)) (sizes ! k) (sizes ! (k - 1) + 1)
           = Inr (layerMatrix sizes v k)"
    using len o by (simp add: reshape_def slice_def layerMatrix_def)
  then show ?thesis by (rule ravel_reshape)
qed

lemma concat_slices:
  "offs sizes n \<le> length v \<Longrightarrow>
   concat (map (\<lambda>l. slice v (offs sizes (l - 1)) (offs sizes l)) [1..<Suc n]) = take (offs sizes n) v"
proof (induction n)
  case 0
  then show ?case by (simp add: offs_def)
next
  case (Suc n)
  have le: "offs sizes n \<le> length v" using Suc.prems by (simp add: offs_Suc)
  have "take (offs sizes (Suc n)) v
        = take (offs sizes n) v @ slice v (offs sizes n) (offs sizes (Suc n))"
    by (simp add: offs_Suc slice_def take_add)
  with Suc.IH[OF le] show ?case by simp
qed

lemma flatten_after_reshapeParams:
  assumes L: "layered sizes arch" and len: "paramCount sizes \<le> length v"
  shows "\<exists>thetas. reshapeParams arch v = Inr thetas
           \<and> flatten thetas = Inr (take (paramCount sizes) v)"
proof -
  have n: "2 \<le> length sizes" using L by (rule layered_len)
  have len': "offs sizes (length sizes - 1) \<le> length v"
    using len by (simp add: paramCount_offs)
  have each: "map (\<lambda>l. ravel (layerMatrix sizes v l)) [1..<length sizes]
        = map (\<lambda>l. slice v (offs sizes (l - 1)) (offs sizes l)) [1..<length sizes]"
  proof (rule map_cong[OF refl])
    fix l assume "l \<in> set [1..<length sizes]"
    then have l: "1 \<le> l" "l \<le> length sizes - 1" by auto
    have "offs sizes l \<le> offs sizes (length sizes - 1)" using l by (intro offs_mono)
    then show "ravel (layerMatrix sizes v l) = slice v (offs sizes (l - 1)) (offs sizes l)"
      using l len' by (intro ravel_layerMatrix) auto
  qed
  have S: "Suc (length sizes - 1) = length sizes" using n by simp
  have "flatten (map (\<lambda>l. (int l, layerMatrix sizes v l)) [1..<length sizes])
        = Inr (concat (map (\<lambda>l. ravel (layerMatrix sizes v l)) [1..<length sizes]))"
    using n by (rule flatten_layers)
  also have "\<dots> = Inr (take (offs sizes (length sizes - 1)) v)"
    using concat_slices[OF len'] by (simp only: each S)
  finally show ?thesis
    using reshapeParams_ok[OF L len] by (simp add: paramCount_offs)
qed

lemma step_cases:
  assumes L: "layered sizes arch" and k: "1 \<le> k" "k < length sizes"
    and lo: "offs sizes (k - 1) \<le> length v"
  shows "reshapeParams_step arch v (int k) (thetas, offs sizes (k - 1))
         = (if offs sizes k \<le> length v
            then Inr (setitem thetas (int k) (layerMatrix sizes v k), offs sizes k)
            else Inl ValueError)"
proof -
  have g1: "getitem arch (int k) = Inr (sizes ! k)"
    using L k by (simp add: layered_getitem)
  have km: "int k - 1 = int (k - 1)" using k by simp
  have "getitem arch (int (k - 1)) = Inr (sizes ! (k - 1))"
    using L k by (intro layered_getitem) auto
  then have g2: "getitem arch (int k - 1) = Inr (sizes ! (k - 1))"
    by (simp only: km)
  have o: "offs sizes (k - 1) + sizes ! k * (sizes ! (k - 1) + 1) = offs sizes k"
    using k offs_Suc[of sizes "k - 1"] by simp
  have r: "reshape (slice v (offs sizes (k - 1)) (offs sizes k)) (sizes ! k) (sizes ! (k - 1) + 1)
           = (if offs sizes k \<le> length v then Inr (layerMatrix sizes v k) else Inl ValueError)"
    using lo o by (auto simp: reshape_def slice_def layerMatrix_def)
  show ?thesis
    unfolding reshapeParams_step_def
    by (simp only: prod.case g1 g2 sum.case o r if_distrib[of "case_sum _ _"] cong: if_cong)
qed

lemma loop_short:
  assumes L: "layered sizes arch" and short: "length v < offs sizes (length sizes - 1)"
  shows "1 \<le> k \<Longrightarrow> k \<le> length sizes \<Longrightarrow> offs sizes (k - 1) \<le> length v \<Longrightarrow>
     foldE (reshapeParams_step arch v) (map int [k..<length sizes]) (thetas, offs sizes (k - 1))
     = Inl ValueError"
proof (induction "length sizes - k" arbitrary: k thetas)
  case 0
  then have "k = length sizes" by simp
  with short "0.prems" show ?case by simp
next
  case (Suc d)
  then have k: "1 \<le> k" "k < length sizes" by auto
  have up: "[k..<length sizes] = k # [Suc k..<length sizes]"
    using k by (simp add: upt_conv_Cons)
  note st = step_cases[OF L k Suc.prems(3), of thetas]
  show ?case
  proof (cases "offs sizes k \<le> length v")
    case True
    have "foldE (reshapeParams_step arch v) (map int [Suc k..<length sizes])
            (setitem thetas (int k) (layerMatrix sizes v k), offs sizes (Suc k - 1))
          = Inl ValueError"
      using Suc.hyps(1)[of "Suc k"] Suc.hyps(2) k True by simp
    then show ?thesis using st True by (simp add: up)
  next
    case False
    then show ?thesis using st by (simp add: up)
  qed
qed

lemma reshapeParams_short:
  assumes L: "layered sizes arch" and short: "length v < paramCount sizes"
  shows "reshapeParams arch v = Inl ValueError"
proof -
  have n: "2 \<le> length sizes" using L by (rule layered_len)
  have short': "length v < offs sizes (length sizes - 1)"
    using short by (simp add: paramCount_offs)
  have g1: "getitem arch 1 = Inr (sizes ! 1)"
    using layered_getitem[OF L, of 1] n by simp
  have "0 < length sizes" using n by linarith
  from layered_getitem[OF L this] have g0: "getitem arch 0 = Inr (sizes ! 0)"
    by simp
  have o1: "sizes ! 1 * (sizes ! 0 + 1) = offs sizes 1" by (simp add: offs_def)
  show ?thesis
  proof (cases "offs sizes 1 \<le> length v")
    case True
    have m: "2 - 1 = (1::nat)" by simp
    have "foldE (reshapeParams_step arch v) (map int [2..<length sizes])
            ([(1, layerMatrix sizes v 1)], offs sizes (2 - 1)) = Inl ValueError"
    proof (rule loop_short[OF L short'])
      show "1 \<le> (2::nat)" by simp
      show "2 \<le> length sizes" by (rule n)
      show "offs sizes (2 - 1) \<le> length v" using True by (simp only: m)
    qed
    then have loop: "foldE (reshapeParams_step arch v) (drop 2 (keys arch))
            ([(1, layerMatrix sizes v 1)], sizes ! 1 * (sizes ! 0 + 1)) = Inl ValueError"
      by (simp only: layered_drop2[OF L] o1 m)
    show ?thesis
      unfolding reshapeParams_def
      by (simp only: g1 g0 sum.case first_ok[OF L True] loop)
  next
    case False
    then have "reshape (slice v 0 (sizes ! 1 * (sizes ! 0 + 1))) (sizes ! 1) (sizes ! 0 + 1)
               = Inl ValueError"
      using o1 by (simp add: reshape_def slice_def)
    then show ?thesis
      unfolding reshapeParams_def by (simp only: g1 g0 sum.case)
  qed
qed

text \<open>
  Claim C1 (as amended). For every architecture with at least two layers whose
  keys are 0 to N, the keys from 2 on in ascending order, and every parameter
  vector whose length is the architecture-derived total, flattening the result of
  \<open>reshapeParams\<close> gives back exactly the vector.
\<close>

theorem reshapeParams_round_trip:
  assumes "layered sizes arch" and "length v = paramCount sizes"
  shows "flatten_reshapeParams arch v = Inr v"
proof -
  from assms have "paramCount sizes \<le> length v" by simp
  from flatten_after_reshapeParams[OF assms(1) this] assms(2) show ?thesis
    by (auto simp: flatten_reshapeParams_def)
qed

theorem reshapeParams_round_trip_witness:
  "layered [1, 2, 1] [(1, 2), (0, 1), (2, 1)]
   \<and> length [1, 2, 3, 4, 5, 6, 7 :: real] = paramCount [1, 2, 1]
   \<and> flatten_reshapeParams [(1, 2), (0, 1), (2, 1)] [1, 2, 3, 4, 5, 6, 7] = Inr [1, 2, 3, 4, 5, 6, 7]"
proof -
  have L: "layered [1, 2, 1] [(1, 2), (0, 1), (2, 1)]"
    by (auto simp add: layered_def keys_def upt_rec less_Suc_eq numeral_3_eq_3)
  have P: "length [1, 2, 3, 4, 5, 6, 7 :: real] = paramCount [1, 2, 1]"
    by (simp add: paramCount_def upt_rec)
  from L P reshapeParams_round_trip[OF L P] show ?thesis by simp
qed

text \<open>
  With the single layer 0 the total is 0 and \<open>reshapeParams\<close> raises
  \<open>KeyError\<close> on \<open>architecture[1]\<close>; with the keys 0 to 3 in the order
  1, 2, 0, 3 the loop over \<open>keys()[2:]\<close> reaches layer 0 and raises
  \<open>KeyError\<close> on \<open>architecture[-1]\<close>.
\<close>

theorem reshapeParams_round_trip_counterexample:
  "keys [(0, 3::nat)] = [0] \<and> length ([] :: real list) = paramCount [3]
   \<and> flatten_reshapeParams [(0, 3)] [] = Inl KeyError
   \<and> set (keys [(1, 1::nat), (2, 1), (0, 1), (3, 1)]) = {0, 1, 2, 3}
   \<and> length [1, 2, 3, 4, 5, 6 :: real] = paramCount [1, 1, 1, 1]
   \<and> flatten_reshapeParams [(1, 1), (2, 1), (0, 1), (3, 1)] [1, 2, 3, 4, 5, 6] = Inl KeyError"
  by (auto simp add: keys_def paramCount_def upt_rec flatten_reshapeParams_def reshapeParams_def
      getitem_def reshapeParams_step_def reshape_def slice_def)

text \<open>
  Claim C2 (as amended). For such an architecture, \<open>reshapeParams\<close> fails with
  \<open>ValueError\<close> (numpy's shape error) on every vector shorter than the total:
  a short vector is never padded. A vector longer than the total is accepted, and
  the elements after the total are ignored.
\<close>

theorem reshapeParams_wrong_length:
  assumes "layered sizes arch" and "length v < paramCount sizes" and "paramCount sizes < length w"
  shows "reshapeParams arch v = Inl ValueError
       \<and> flatten_reshapeParams arch w = Inr (take (paramCount sizes) w)"
proof -
  from assms(3) have "paramCount sizes \<le> length w" by simp
  from flatten_after_reshapeParams[OF assms(1) this] reshapeParams_short[OF assms(1,2)]
  show ?thesis by (auto simp: flatten_reshapeParams_def)
qed

theorem reshapeParams_wrong_length_witness:
  "layered [1, 1] [(0, 1), (1, 1)] \<and> length [5 :: real] < paramCount [1, 1]
   \<and> paramCount [1, 1] < length [7, 8, 9 :: real]
   \<and> reshapeParams [(0, 1), (1, 1)] [5] = Inl ValueError
   \<and> flatten_reshapeParams [(0, 1), (1, 1)] [7, 8, 9] = Inr [7, 8]"
proof -
  have L: "layered [1, 1] [(0, 1), (1, 1)]"
    by (simp add: layered_def keys_def upt_rec less_Suc_eq numeral_2_eq_2)
  have S: "length [5 :: real] < paramCount [1, 1]" by (simp add: paramCount_def upt_rec)
  have G: "paramCount [1, 1] < length [7, 8, 9 :: real]" by (simp add: paramCount_def upt_rec)
  from L S G reshapeParams_wrong_length[OF L S G] show ?thesis
    by (simp add: paramCount_def upt_rec)
qed

text \<open>A vector of length 3 for an architecture that needs 2 parameters is accepted.\<close>

theorem reshapeParams_wrong_length_counterexample:
  "length [7, 8, 9 :: real] \<noteq> paramCount [1, 1]
   \<and> reshapeParams [(0, 1), (1, 1)] [7, 8, 9] \<noteq> Inl ValueError
   \<and> flatten_reshapeParams [(0, 1), (1, 1)] [7, 8, 9] = Inr [7, 8]"
  by (simp add: keys_def paramCount_def upt_rec flatten_reshapeParams_def reshapeParams_def
      getitem_def reshape_def slice_def flatten_def ravel_def)

section \<open>Setting parameters\<close>

lemma init_default:
  "init (PyDict [(1, 25)]) (PyFloat 0) (PyStr ''sigmoid'') ''fmin_cg'' (PyInt 1000) = Inr newNetwork"
  by (simp add: init_def scipy_optimisers_def newNetwork_def)

lemma init_dom:
  assumes "init architecture LAMBDA neuron optimiser maxiter = Inr self"
  shows "dom self = {''architecture'', ''LAMBDA'', ''neuron'', ''maxiter'', ''optimiser'',
                     ''_trainedParams''}"
proof -
  obtain f where "self = [''architecture'' \<mapsto> architecture, ''LAMBDA'' \<mapsto> LAMBDA,
               ''neuron'' \<mapsto> neuron, ''maxiter'' \<mapsto> maxiter,
               ''optimiser'' \<mapsto> PyFunc f, ''_trainedParams'' \<mapsto> PyNone]"
    using assms by (auto simp: init_def split: option.splits)
  then show ?thesis by (simp only: dom_fun_upd dom_empty) auto
qed

lemma setattr_dom: "setattr self parameter v = Inr self' \<Longrightarrow> dom self' = dom self"
  by (auto simp: setattr_def split: if_splits)

lemma setattr_known: "parameter \<in> dom self \<Longrightarrow> setattr self parameter v = Inr (self(parameter \<mapsto> v))"
  by (auto simp: setattr_def)

lemma setattr_unknown: "parameter \<notin> dom self \<Longrightarrow> setattr self parameter v = Inl AttributeError"
  by (auto simp: setattr_def)

lemma set_params_dom: "dom (snd (set_params self parameters)) = dom self"
proof (induction parameters arbitrary: self)
  case Nil
  then show ?case by simp
next
  case (Cons p ps)
  obtain k v where p: "p = (k, v)" by (cases p)
  show ?case
  proof (cases "setattr self k v")
    case (Inl e)
    then show ?thesis by (simp add: p)
  next
    case (Inr self')
    with Cons.IH[of self'] setattr_dom[OF Inr] show ?thesis by (simp add: p)
  qed
qed

lemma set_params_fails:
  "k \<notin> dom self \<Longrightarrow> k \<in> fst ` set parameters \<Longrightarrow> fst (set_params self parameters) = Some AttributeError"
proof (induction parameters arbitrary: self)
  case Nil
  then show ?case by simp
next
  case (Cons p ps)
  obtain k' v where p: "p = (k', v)" by (cases p)
  show ?case
  proof (cases "k' \<in> dom self")
    case False
    then show ?thesis by (simp add: p setattr_unknown)
  next
    case True
    then have "k' \<noteq> k" using Cons.prems(1) by auto
    then have in_ps: "k \<in> fst ` set ps" using Cons.prems(2) by (auto simp: p)
    have "k \<notin> dom (self(k' \<mapsto> v))" using Cons.prems(1) \<open>k' \<noteq> k\<close> by auto
    from Cons.IH[OF this in_ps]
    have IH: "fst (set_params (self(k' \<mapsto> v)) ps) = Some AttributeError" .
    have "set_params self (p # ps) = set_params (self(k' \<mapsto> v)) ps"
      by (simp only: p set_params.simps setattr_known[OF True] sum.case)
    then show ?thesis by (simp only: IH)
  qed
qed

lemma set_params_applies:
  "fst ` set parameters \<subseteq> dom self \<Longrightarrow>
   set_params self parameters = (None, foldl (\<lambda>s (k, v). s(k \<mapsto> v)) self parameters)"
proof (induction parameters arbitrary: self)
  case Nil
  then show ?case by simp
next
  case (Cons p ps)
  obtain k v where p: "p = (k, v)" by (cases p)
  have k: "k \<in> dom self" using Cons.prems by (simp add: p)
  have "fst ` set ps \<subseteq> dom (self(k \<mapsto> v))" using Cons.prems by auto
  from Cons.IH[OF this]
  have IH: "set_params (self(k \<mapsto> v)) ps
            = (None, foldl (\<lambda>s (k, v). s(k \<mapsto> v)) (self(k \<mapsto> v)) ps)" .
  have step: "set_params self (p # ps) = set_params (self(k \<mapsto> v)) ps"
    by (simp only: p set_params.simps setattr_known[OF k] sum.case)
  have "foldl (\<lambda>s (k, v). s(k \<mapsto> v)) self (p # ps)
        = foldl (\<lambda>s (k, v). s(k \<mapsto> v)) (self(k \<mapsto> v)) ps"
    by (simp only: p foldl.simps prod.case)
  then show ?case by (simp only: step IH)
qed

text \<open>
  Claim C9 (as amended). For every key that is not already an attribute of the
  instance, \<open>set_params\<close> called with that key fails with \<open>AttributeError\<close>
  and creates no attribute: the attribute names are the same after the call. (The
  attributes of a constructed instance are the five configuration options and
  \<open>_trainedParams\<close>.)
\<close>

theorem set_params_unknown_key:
  assumes "k \<notin> dom self" and "k \<in> fst ` set parameters"
  shows "fst (set_params self parameters) = Some AttributeError
       \<and> dom (snd (set_params self parameters)) = dom self"
  using set_params_fails[OF assms] set_params_dom by simp

theorem set_params_unknown_key_witness:
  "''verbose'' \<notin> dom newNetwork
   \<and> ''verbose'' \<in> fst ` set [(''LAMBDA'', PyFloat 1), (''verbose'', PyInt 1)]
   \<and> fst (set_params newNetwork [(''LAMBDA'', PyFloat 1), (''verbose'', PyInt 1)]) = Some AttributeError
   \<and> dom (snd (set_params newNetwork [(''LAMBDA'', PyFloat 1), (''verbose'', PyInt 1)])) = dom newNetwork"
proof -
  have a: "''verbose'' \<notin> dom newNetwork" by (simp add: newNetwork_def)
  have b: "''verbose'' \<in> fst ` set [(''LAMBDA'', PyFloat 1), (''verbose'', PyInt 1)]" by simp
  from a b set_params_unknown_key[OF a b] show ?thesis by simp
qed

text \<open>
  \<open>_trainedParams\<close> is not one of the configuration options, and
  \<open>set_params\<close> accepts it.
\<close>

theorem set_params_unknown_key_counterexample:
  "init (PyDict [(1, 25)]) (PyFloat 0) (PyStr ''sigmoid'') ''fmin_cg'' (PyInt 1000) = Inr newNetwork
   \<and> ''_trainedParams'' \<notin> set get_params_keys
   \<and> fst (set_params newNetwork [(''_trainedParams'', PyArray [1, 2])]) = None"
  by (simp add: init_def scipy_optimisers_def newNetwork_def get_params_keys_def setattr_def)

text \<open>
  Claim C10. \<open>set_params\<close> accepts and applies every key that is already an
  attribute of the instance; in particular, on a constructed instance the key
  \<open>_trainedParams\<close> is accepted and the stored trained parameters are replaced.
\<close>

theorem set_params_existing_attribute:
  assumes "fst ` set parameters \<subseteq> dom self"
    and "init architecture LAMBDA neuron optimiser maxiter = Inr obj"
  shows "set_params self parameters = (None, foldl (\<lambda>s (k, v). s(k \<mapsto> v)) self parameters)
       \<and> set_params obj [(''_trainedParams'', v)] = (None, obj(''_trainedParams'' \<mapsto> v))"
proof -
  have "''_trainedParams'' \<in> dom obj" using init_dom[OF assms(2)] by simp
  then show ?thesis using set_params_applies[OF assms(1)] by (simp add: setattr_known)
qed

theorem set_params_existing_attribute_witness:
  "fst ` set [(''_trainedParams'', PyArray [1, 2]), (''maxiter'', PyInt 5)] \<subseteq> dom newNetwork
   \<and> init (PyDict [(1, 25)]) (PyFloat 0) (PyStr ''sigmoid'') ''fmin_cg'' (PyInt 1000) = Inr newNetwork
   \<and> set_params newNetwork [(''_trainedParams'', PyArray [1, 2]), (''maxiter'', PyInt 5)]
       = (None, newNetwork(''_trainedParams'' \<mapsto> PyArray [1, 2], ''maxiter'' \<mapsto> PyInt 5))
   \<and> set_params newNetwork [(''_trainedParams'', PyArray [3])]
       = (None, newNetwork(''_trainedParams'' \<mapsto> PyArray [3]))"
proof -
  have a: "fst ` set [(''_trainedParams'', PyArray [1, 2]), (''maxiter'', PyInt 5)] \<subseteq> dom newNetwork"
    by (simp add: newNetwork_def)
  note b = init_default
  from a b set_params_existing_attribute[OF a b, of "PyArray [3]"] show ?thesis by simp
qed

section \<open>Resolving the architecture in fit\<close>

lemma keys_setitem:
  "keys (setitem d k v) = (if k \<in> set (keys d) then keys d else keys d @ [k])"
proof (induction d)
  case Nil
  then show ?case by (simp add: keys_def)
next
  case (Cons p d)
  obtain k' v' where p: "p = (k', v')" by (cases p)
  show ?case using Cons.IH by (simp add: keys_def p)
qed

lemma map_of_setitem: "map_of (setitem d k v) = (map_of d)(k \<mapsto> v)"
proof (induction d)
  case Nil
  then show ?case by simp
next
  case (Cons p d)
  obtain k' v' where p: "p = (k', v')" by (cases p)
  show ?case using Cons.IH by (auto simp: p)
qed

lemma distinct_setitem: "distinct (keys d) \<Longrightarrow> distinct (keys (setitem d k v))"
  by (simp add: keys_setitem)

lemma keys_after_layer0:
  assumes "set (keys arch) = {1..int H}"
  shows "set (keys (setitem arch 0 n)) = {0..int H}"
proof -
  have "set (keys (setitem arch 0 n)) = insert 0 (set (keys arch))"
    by (simp add: keys_setitem insert_absorb)
  moreover have "insert 0 {1..int H} = {0..int H}" by (simp add: set_eq_iff) linarith
  ultimately show ?thesis using assms by simp
qed

lemma length_keys_interval:
  assumes "distinct ks" and "set ks = {0..int H}"
  shows "int (length ks) = int H + 1"
proof -
  have "length ks = card (set ks)" using assms(1) by (simp add: distinct_card)
  also have "\<dots> = card {0..int H}" by (simp only: assms(2))
  also have "\<dots> = H + 1" by simp
  finally show ?thesis by simp
qed

text \<open>
  The first call on an architecture with the hidden layers 1 to H: with two or
  more distinct labels the output layer H + 1 is added, with fewer no layer is.
\<close>

lemma resolveArchitecture_eq:
  assumes d: "distinct (keys arch)" and ks: "set (keys arch) = {1..int H}"
  shows "resolveArchitecture arch n y
         = (if 2 \<le> numUnique y
            then setitem (setitem arch 0 n) (int H + 1)
                   (if numUnique y = 2 then 1 else numUnique y)
            else setitem arch 0 n)"
proof -
  have d0: "distinct (keys (setitem arch 0 n))" using d by (rule distinct_setitem)
  have s0: "set (keys (setitem arch 0 n)) = {0..int H}" using ks by (rule keys_after_layer0)
  have len: "int (length (keys (setitem arch 0 n))) = int H + 1"
    using d0 s0 by (rule length_keys_interval)
  consider "numUnique y = 2" | "numUnique y > 2" | "numUnique y < 2" by linarith
  then show ?thesis
  proof cases
    case 1
    then show ?thesis by (simp only: resolveArchitecture_def Let_def len) simp
  next
    case 2
    then show ?thesis by (simp only: resolveArchitecture_def Let_def len) simp
  next
    case 3
    then show ?thesis by (simp only: resolveArchitecture_def Let_def) simp
  qed
qed

lemma resolveArchitecture_first:
  assumes d: "distinct (keys arch)" and ks: "set (keys arch) = {1..int H}"
  shows "distinct (keys (resolveArchitecture arch n y))
       \<and> set (keys (resolveArchitecture arch n y))
           = {0..(if 2 \<le> numUnique y then int H + 1 else int H)}
       \<and> map_of (resolveArchitecture arch n y) 0 = Some n
       \<and> (2 \<le> numUnique y \<longrightarrow>
            map_of (resolveArchitecture arch n y) (int H + 1)
            = Some (if numUnique y = 2 then 1 else numUnique y))"
proof -
  define k where "k = (if numUnique y = 2 then 1 else numUnique y)"
  define a0 where "a0 = setitem arch 0 n"
  have d0: "distinct (keys a0)" unfolding a0_def using d by (rule distinct_setitem)
  have s0: "set (keys a0) = {0..int H}" unfolding a0_def using ks by (rule keys_after_layer0)
  have m0: "map_of a0 0 = Some n" by (simp add: a0_def map_of_setitem)
  show ?thesis
  proof (cases "2 \<le> numUnique y")
    case False
    then have r: "resolveArchitecture arch n y = a0"
      unfolding a0_def using resolveArchitecture_eq[OF d ks, of n y] by simp
    show ?thesis using False d0 s0 m0 by (simp add: r)
  next
    case True
    then have r: "resolveArchitecture arch n y = setitem a0 (int H + 1) k"
      unfolding a0_def k_def using resolveArchitecture_eq[OF d ks, of n y] by simp
    have fresh: "int H + 1 \<notin> set (keys a0)" by (simp add: s0)
    have kk: "keys (setitem a0 (int H + 1) k) = keys a0 @ [int H + 1]"
      using fresh by (simp add: keys_setitem)
    have c1: "distinct (keys (setitem a0 (int H + 1) k))" using d0 by (rule distinct_setitem)
    have "insert (int H + 1) {0..int H} = {0..int H + 1}" by (simp add: set_eq_iff) linarith
    then have c2: "set (keys (setitem a0 (int H + 1) k)) = {0..int H + 1}"
      by (simp add: kk s0)
    have "(0::int) \<noteq> int H + 1" by simp
    then have c3: "map_of (setitem a0 (int H + 1) k) 0 = Some n"
      using m0 by (simp add: map_of_setitem)
    have c4: "map_of (setitem a0 (int H + 1) k) (int H + 1) = Some k"
      by (simp add: map_of_setitem)
    show ?thesis unfolding r using True c1 c2 c3 c4 unfolding k_def by simp
  qed
qed

lemma fit_first_call:
  assumes "self ''architecture'' = Some (PyDict arch)"
    and "distinct (keys arch)" and "set (keys arch) = {1..int H}"
    and "squeeze X = [m, n]"
  shows "fit self X y
         = (Some NameError, self(''architecture'' \<mapsto> PyDict (resolveArchitecture arch n y)))"
    and "distinct (keys (resolveArchitecture arch n y))
       \<and> set (keys (resolveArchitecture arch n y))
           = {0..(if 2 \<le> numUnique y then int H + 1 else int H)}
       \<and> map_of (resolveArchitecture arch n y) 0 = Some n
       \<and> (2 \<le> numUnique y \<longrightarrow>
            map_of (resolveArchitecture arch n y) (int H + 1)
            = Some (if numUnique y = 2 then 1 else numUnique y))"
proof -
  show "fit self X y
        = (Some NameError, self(''architecture'' \<mapsto> PyDict (resolveArchitecture arch n y)))"
    by (simp add: fit_def assms(1) assms(4))
  show "distinct (keys (resolveArchitecture arch n y))
       \<and> set (keys (resolveArchitecture arch n y))
           = {0..(if 2 \<le> numUnique y then int H + 1 else int H)}
       \<and> map_of (resolveArchitecture arch n y) 0 = Some n
       \<and> (2 \<le> numUnique y \<longrightarrow>
            map_of (resolveArchitecture arch n y) (int H + 1)
            = Some (if numUnique y = 2 then 1 else numUnique y))"
    using assms(2) assms(3) by (rule resolveArchitecture_first)
qed

lemma newNetwork_architecture: "newNetwork ''architecture'' = Some (PyDict [(1, 25)])"
  by (simp add: newNetwork_def)

lemma fit_once: "fit newNetwork [4, 2] [0, 1, 1, 0]
   = (Some NameError, newNetwork(''architecture'' \<mapsto> PyDict [(1, 25), (0, 2), (2, 1)]))"
  by (simp add: fit_def squeeze_def newNetwork_architecture resolveArchitecture_def
      numUnique_def keys_def)

lemma fit_twice: "fit (newNetwork(''architecture'' \<mapsto> PyDict [(1, 25), (0, 2), (2, 1)]))
     [4, 2] [0, 1, 1, 0]
   = (Some NameError, newNetwork(''architecture'' \<mapsto> PyDict [(1, 25), (0, 2), (2, 1), (3, 1)]))"
  by (simp add: fit_def squeeze_def resolveArchitecture_def numUnique_def keys_def)

text \<open>
  Claim C8 (the code departs from it). A first \<open>fit\<close> of the default network on
  an input of shape (4, 2) with two distinct labels resolves the architecture to
  the layers 1, 0, 2 with layer 0 of size 2 and the output layer 2 of size 1. A
  second \<open>fit\<close> on the same data does not overwrite this resolution: it leaves
  the previous output layer 2 in place and adds a layer 3, so the mapping has
  grown from three layers to four.
\<close>

theorem fit_again_grows_architecture:
  "architectureOf (snd (fit newNetwork [4, 2] [0, 1, 1, 0])) = [(1, 25), (0, 2), (2, 1)]
   \<and> architectureOf (snd (fit (snd (fit newNetwork [4, 2] [0, 1, 1, 0])) [4, 2] [0, 1, 1, 0]))
       = [(1, 25), (0, 2), (2, 1), (3, 1)]"
proof -
  have a: "architectureOf (snd (fit newNetwork [4, 2] [0, 1, 1, 0])) = [(1, 25), (0, 2), (2, 1)]"
    by (simp only: fit_once snd_conv) (simp add: architectureOf_def)
  have b: "architectureOf (snd (fit (snd (fit newNetwork [4, 2] [0, 1, 1, 0])) [4, 2] [0, 1, 1, 0]))
       = [(1, 25), (0, 2), (2, 1), (3, 1)]"
    by (simp only: fit_once fit_twice snd_conv) (simp add: architectureOf_def)
  from a b show ?thesis by blast
qed

section \<open>The label encoder\<close>

text \<open>With \<open>targets\<close> bound, the body computes the one-hot matrix of the example.\<close>

lemma oneHotEncoding_body_example:
  "map_sum id columns (oneHotEncoding_body [0, 1, 2, 1])
   = Inr [[1, 0, 0], [0, 1, 0], [0, 0, 1], [0, 1, 0]]"
  by (simp add: oneHotEncoding_body_def numUnique_def upt_rec setentry_def zeros_def
      transpose_matrix_def columns_def)

text \<open>
  Claim C6 (the code departs from it). \<open>oneHotEncoding\<close> on the labels
  0, 1, 2, 1 does not return the 3 by 4 one-hot matrix: it raises \<open>NameError\<close>,
  since its body reads \<open>targets\<close> and its parameter is named \<open>y\<close>.
\<close>

theorem oneHotEncoding_raises:
  "oneHotEncoding NeuralNet_globals [0, 1, 2, 1] = Inl NameError"
  by (simp add: oneHotEncoding_def NeuralNet_globals_def)

section \<open>Forward propagation\<close>

text \<open>What the layers \<open>ks\<close> of \<open>thetas\<close> contribute to the regularisation term.\<close>

lemma feedForward_loop_regTerm:
  "foldE (feedForward_step thetas m neuron) ks (activs, regTerm) = Inr (activs', regTerm')
   \<Longrightarrow> \<exists>Ts. map (getitem thetas) ks = map Inr Ts
          \<and> regTerm' = regTerm + sum_list (map sumsq_nobias Ts)"
proof (induction ks arbitrary: activs regTerm)
  case Nil
  then show ?case by simp
next
  case (Cons k ks)
  from Cons.prems obtain a1 r1 where
    step: "feedForward_step thetas m neuron k (activs, regTerm) = Inr (a1, r1)"
    and rest: "foldE (feedForward_step thetas m neuron) ks (a1, r1) = Inr (activs', regTerm')"
    by (auto split: sum.splits)
  from step obtain T where T: "getitem thetas k = Inr T" and r1: "r1 = regTerm + sumsq_nobias T"
    by (auto simp: feedForward_step_def split: sum.splits)
  from Cons.IH[OF rest] obtain Ts where
    Ts: "map (getitem thetas) ks = map Inr Ts"
    and r': "regTerm' = r1 + sum_list (map sumsq_nobias Ts)" by blast
  have "map (getitem thetas) (k # ks) = map Inr (T # Ts)" using T Ts by simp
  moreover have "regTerm' = regTerm + sum_list (map sumsq_nobias (T # Ts))"
    using r' r1 by simp
  ultimately show ?case by blast
qed

lemma getitem_keys_distinct:
  "distinct (keys d) \<Longrightarrow> map (getitem d) (keys d) = map (\<lambda>p. Inr (snd p)) d"
proof (induction d)
  case Nil
  then show ?case by (simp add: keys_def)
next
  case (Cons p d)
  obtain k v where p: "p = (k, v)" by (cases p)
  have notin: "k \<notin> fst ` set d" and dd: "distinct (keys d)"
    using Cons.prems by (auto simp: keys_def p)
  have "map (getitem (p # d)) (keys d) = map (getitem d) (keys d)"
  proof (rule map_cong[OF refl])
    fix x assume "x \<in> set (keys d)"
    then have "x \<noteq> k" using notin by (auto simp: keys_def)
    then show "getitem (p # d) x = getitem d x" by (simp add: getitem_def p)
  qed
  then show ?case using Cons.IH[OF dd] by (simp add: keys_def p getitem_def)
qed

lemma feedForward_propagate_regTerm:
  assumes "feedForward_propagate thetas input regTerm m neuron = Inr (h, activs, regTerm')"
    and "distinct (keys thetas)"
  shows "regTerm' = regTerm + (\<Sum>p \<leftarrow> thetas. sumsq_nobias (snd p))"
proof -
  from assms(1) obtain a1 r1 L T where
    loop: "foldE (feedForward_step thetas m neuron) (butlast (keys thetas)) ([(1, input)], regTerm)
           = Inr (a1, r1)"
    and L: "lastkey thetas = Inr L" and T: "getitem thetas L = Inr T"
    and r': "regTerm' = r1 + sumsq_nobias T"
    by (auto simp: feedForward_propagate_def split: sum.splits prod.splits)
  from feedForward_loop_regTerm[OF loop] obtain Ts where
    Ts: "map (getitem thetas) (butlast (keys thetas)) = map Inr Ts"
    and r1: "r1 = regTerm + sum_list (map sumsq_nobias Ts)" by blast
  from L have ne: "keys thetas \<noteq> []" and Ll: "L = last (keys thetas)"
    by (auto simp: lastkey_def keys_def split: if_splits)
  have "keys thetas = butlast (keys thetas) @ [L]" using ne Ll by simp
  then have "map (getitem thetas) (keys thetas)
             = map (getitem thetas) (butlast (keys thetas)) @ [getitem thetas L]"
    by (metis list.simps(8) list.simps(9) map_append)
  then have "map (getitem thetas) (keys thetas) = map Inr (Ts @ [T])"
    using Ts T by simp
  then have "map (\<lambda>p. Inr (snd p) :: error + matrix) thetas = map Inr (Ts @ [T])"
    using getitem_keys_distinct[OF assms(2)] by simp
  then have "map projr (map (\<lambda>p. Inr (snd p) :: error + matrix) thetas)
             = map projr (map (Inr :: matrix \<Rightarrow> error + matrix) (Ts @ [T]))"
    by (rule arg_cong)
  moreover have "map projr (map (\<lambda>p. Inr (snd p) :: error + matrix) thetas) = map snd thetas"
    by (induction thetas) simp_all
  moreover have "map projr (map (Inr :: matrix \<Rightarrow> error + matrix) (Ts @ [T])) = Ts @ [T]"
    by (induction Ts) simp_all
  ultimately have vals: "map snd thetas = Ts @ [T]" by (simp only:)
  have "(\<Sum>p \<leftarrow> thetas. sumsq_nobias (snd p)) = sum_list (map sumsq_nobias (map snd thetas))"
    by (induction thetas) simp_all
  then have "(\<Sum>p \<leftarrow> thetas. sumsq_nobias (snd p)) = sum_list (map sumsq_nobias (Ts @ [T]))"
    by (simp only: vals)
  then show ?thesis using r' r1 by simp
qed

text \<open>
  Claim C3. The regularisation term \<open>feedForward\<close> returns is the term it was
  given (0 in \<open>costFunction\<close>) plus the sum, over the entries of \<open>thetas\<close>, of
  the squares of all entries of the layer's matrix outside column 0: every layer
  is counted exactly once.
\<close>

theorem feedForward_regTerm:
  assumes "feedForward thetas input regTerm m neuron = Inr (hypothesis, activs, regTerm')"
    and "distinct (keys thetas)"
  shows "regTerm' = regTerm + (\<Sum>(layer, T) \<leftarrow> thetas. sumsq_nobias T)"
proof -
  from assms(1) obtain raw where
    "feedForward_propagate thetas input regTerm m neuron = Inr (raw, activs, regTerm')"
    by (auto simp: feedForward_def split: sum.splits prod.splits)
  from feedForward_propagate_regTerm[OF this assms(2)]
  show ?thesis by (simp add: case_prod_unfold)
qed

lemma feedForward_example:
  "\<exists>h a. feedForward [(1, of_rows [[1, 2, 3], [4, 5, 6]]), (2, of_rows [[1, 1, 1]])]
            (of_rows [[1, 1], [0, 1], [1, 0]]) 0 2 (\<lambda>x. x) = Inr (h, a, 76)"
  by (simp add: feedForward_def feedForward_propagate_def feedForward_step_def keys_def
      getitem_def dot_def of_rows_def add_bias_row_def map_matrix_def lastkey_def
      sumsq_nobias_def drop_first_col_def upt_rec)

theorem feedForward_regTerm_witness:
  "distinct (keys [(1, of_rows [[1, 2, 3], [4, 5, 6]]), (2, of_rows [[1, 1, 1]])])
   \<and> (\<exists>h a. feedForward [(1, of_rows [[1, 2, 3], [4, 5, 6]]), (2, of_rows [[1, 1, 1]])]
            (of_rows [[1, 1], [0, 1], [1, 0]]) 0 2 (\<lambda>x. x) = Inr (h, a, 76))
   \<and> (76 :: real) = 0 + (\<Sum>(layer, T) \<leftarrow> [(1 :: int, of_rows [[1, 2, 3], [4, 5, 6]]), (2, of_rows [[1, 1, 1]])].
                          sumsq_nobias T)"
proof -
  let ?thetas = "[(1, of_rows [[1, 2, 3], [4, 5, 6]]), (2, of_rows [[1, 1, 1]])]"
  have d: "distinct (keys ?thetas)" by (simp add: keys_def)
  from feedForward_example obtain h a where
    r: "feedForward ?thetas (of_rows [[1, 1], [0, 1], [1, 0]]) 0 2 (\<lambda>x. x) = Inr (h, a, 76)"
    by blast
  from d feedForward_example feedForward_regTerm[OF r d] show ?thesis by blast
qed

section \<open>Stabilising the hypothesis\<close>

lemma contains_iff:
  "contains c M \<longleftrightarrow> (\<exists>i < nrows M. \<exists>j < ncols M. entry M i j = c)"
  unfolding contains_def list_ex_iff by (simp add: Bex_def)

lemma feedForward_stabilise_shape:
  "nrows (feedForward_stabilise h) = nrows h" "ncols (feedForward_stabilise h) = ncols h"
  by (simp_all add: feedForward_stabilise_def update_where_def Let_def)

lemma feedForward_stabilise_entry:
  assumes "i < nrows h" and "j < ncols h"
  shows "entry (feedForward_stabilise h) i j
         = (if entry h i j = 1 then 1 - 1 / 10 ^ 9
            else if entry h i j = 0 then 1 / 10 ^ 9 else entry h i j)"
proof -
  define h1 where "h1 = (if contains 1 h then update_where 1 (\<lambda>x. x - 1 / 10 ^ 9) h else h)"
  have s: "feedForward_stabilise h = (if contains 0 h1 then update_where 0 (\<lambda>x. x + 1 / 10 ^ 9) h1 else h1)"
    by (simp add: feedForward_stabilise_def h1_def Let_def)
  have shape1: "nrows h1 = nrows h" "ncols h1 = ncols h"
    by (simp_all add: h1_def update_where_def)
  have e1: "entry h1 i j = (if entry h i j = 1 then 1 - 1 / 10 ^ 9 else entry h i j)"
  proof (cases "entry h i j = 1")
    case True
    then have "contains 1 h" using assms by (auto simp: contains_iff)
    then show ?thesis using True by (simp add: h1_def update_where_def)
  next
    case False
    then show ?thesis by (simp add: h1_def update_where_def)
  qed
  show ?thesis
  proof (cases "entry h1 i j = 0")
    case True
    then have "contains 0 h1" using assms shape1 by (auto simp: contains_iff)
    then have "entry (feedForward_stabilise h) i j = 1 / 10 ^ 9"
      using True by (simp add: s update_where_def)
    moreover have "entry h i j = 0" using True e1 by (simp split: if_splits)
    ultimately show ?thesis by simp
  next
    case False
    then have "entry (feedForward_stabilise h) i j = entry h1 i j"
      by (simp add: s update_where_def)
    then show ?thesis using False e1 by (simp split: if_splits)
  qed
qed

text \<open>
  Claim C4. The hypothesis \<open>feedForward\<close> returns is the output activation with
  every entry equal to 1 replaced by 1 - 1e-9 and every entry equal to 0 by 1e-9;
  every other entry, however close to 0 or 1, is returned as it is.
\<close>

theorem feedForward_clamps_exact_boundaries:
  assumes "feedForward thetas input regTerm m neuron = Inr (hypothesis, activs, regTerm')"
  shows "\<exists>raw. feedForward_propagate thetas input regTerm m neuron = Inr (raw, activs, regTerm')
           \<and> nrows hypothesis = nrows raw \<and> ncols hypothesis = ncols raw
           \<and> (\<forall>i j. i < nrows raw \<longrightarrow> j < ncols raw \<longrightarrow>
                 entry hypothesis i j
                 = (if entry raw i j = 1 then 1 - 1 / 10 ^ 9
                    else if entry raw i j = 0 then 1 / 10 ^ 9 else entry raw i j))"
proof -
  from assms obtain raw where
    p: "feedForward_propagate thetas input regTerm m neuron = Inr (raw, activs, regTerm')"
    and h: "hypothesis = feedForward_stabilise raw"
    by (auto simp: feedForward_def split: sum.splits prod.splits)
  show ?thesis
    using p by (auto simp: h feedForward_stabilise_shape feedForward_stabilise_entry)
qed

lemma feedForward_clamp_example:
  "\<exists>h a r. feedForward [(1, of_rows [[1]])] (of_rows [[1, 0, 1 - 1 / 10 ^ 12]]) 0 3 (\<lambda>x. x)
            = Inr (h, a, r)
          \<and> rows_of h = [[1 - 1 / 10 ^ 9, 1 / 10 ^ 9, 1 - 1 / 10 ^ 12]]"
  by (simp add: feedForward_def feedForward_propagate_def keys_def
      getitem_def dot_def of_rows_def map_matrix_def lastkey_def
      feedForward_stabilise_def contains_def update_where_def rows_of_def upt_rec Let_def)

theorem feedForward_clamps_exact_boundaries_witness:
  "\<exists>h a r raw. feedForward [(1, of_rows [[1]])] (of_rows [[1, 0, 1 - 1 / 10 ^ 12]]) 0 3 (\<lambda>x. x)
            = Inr (h, a, r)
          \<and> rows_of h = [[1 - 1 / 10 ^ 9, 1 / 10 ^ 9, 1 - 1 / 10 ^ 12]]
          \<and> feedForward_propagate [(1, of_rows [[1]])] (of_rows [[1, 0, 1 - 1 / 10 ^ 12]]) 0 3 (\<lambda>x. x)
            = Inr (raw, a, r)
          \<and> nrows h = nrows raw \<and> ncols h = ncols raw"
proof -
  from feedForward_clamp_example obtain h a r where
    f: "feedForward [(1, of_rows [[1]])] (of_rows [[1, 0, 1 - 1 / 10 ^ 12]]) 0 3 (\<lambda>x. x)
        = Inr (h, a, r)"
    and rows: "rows_of h = [[1 - 1 / 10 ^ 9, 1 / 10 ^ 9, 1 - 1 / 10 ^ 12]]" by blast
  from feedForward_clamps_exact_boundaries[OF f] obtain raw where
    "feedForward_propagate [(1, of_rows [[1]])] (of_rows [[1, 0, 1 - 1 / 10 ^ 12]]) 0 3 (\<lambda>x. x)
       = Inr (raw, a, r)" "nrows h = nrows raw" "ncols h = ncols raw" by blast
  with f rows show ?thesis by blast
qed

section \<open>Back propagation\<close>

lemma getitem_setitem:
  "getitem (setitem d k v) k' = (if k' = k then Inr v else getitem d k')"
  by (simp add: getitem_def map_of_setitem)

lemma map_setitem:
  "map (apsnd f) (setitem d k v) = setitem (map (apsnd f) d) k (f v)"
  by (induction d) auto

lemma assign_from_col1_bias:
  "assign_from_col1 G R = Inr G' \<Longrightarrow> bias_column G' = bias_column G"
  by (auto simp: assign_from_col1_def bias_column_def split: if_splits cong: if_cong)

lemma backProp_grad_bias:
  assumes "backProp_grad L1 thetas deltas activs m layer G1 = Inr G1'"
    and "backProp_grad L2 thetas deltas activs m layer G2 = Inr G2'"
    and "map (apsnd bias_column) G1 = map (apsnd bias_column) G2"
  shows "map (apsnd bias_column) G1' = map (apsnd bias_column) G2'"
proof -
  from assms(1) obtain D A P g1 R1 where
    D: "getitem deltas (layer + 1) = Inr D" and A: "getitem activs layer = Inr A"
    and P: "dot D (transpose_matrix A) = Inr P"
    and g1: "assign_from_col1 (scale (1 / m) P) R1 = Inr g1"
    and G1': "G1' = setitem G1 layer g1"
    by (auto simp: backProp_grad_def split: if_splits sum.splits)
  from assms(2) D A P obtain g2 R2 where
    g2: "assign_from_col1 (scale (1 / m) P) R2 = Inr g2"
    and G2': "G2' = setitem G2 layer g2"
    by (auto simp: backProp_grad_def split: if_splits sum.splits)
  have "bias_column g1 = bias_column g2"
    using assign_from_col1_bias[OF g1] assign_from_col1_bias[OF g2] by simp
  then show ?thesis by (simp add: G1' G2' map_setitem assms(3))
qed

lemma backProp_grad_loop_bias:
  "foldE (backProp_grad L1 thetas deltas activs m) ks G1 = Inr G1' \<Longrightarrow>
   foldE (backProp_grad L2 thetas deltas activs m) ks G2 = Inr G2' \<Longrightarrow>
   map (apsnd bias_column) G1 = map (apsnd bias_column) G2 \<Longrightarrow>
   map (apsnd bias_column) G1' = map (apsnd bias_column) G2'"
proof (induction ks arbitrary: G1 G2)
  case Nil
  then show ?case by simp
next
  case (Cons k ks)
  from Cons.prems(1) obtain H1 where
    s1: "backProp_grad L1 thetas deltas activs m k G1 = Inr H1"
    and r1: "foldE (backProp_grad L1 thetas deltas activs m) ks H1 = Inr G1'"
    by (auto split: sum.splits)
  from Cons.prems(2) obtain H2 where
    s2: "backProp_grad L2 thetas deltas activs m k G2 = Inr H2"
    and r2: "foldE (backProp_grad L2 thetas deltas activs m) ks H2 = Inr G2'"
    by (auto split: sum.splits)
  from backProp_grad_bias[OF s1 s2 Cons.prems(3)] Cons.IH[OF r1 r2] show ?case by blast
qed

lemma backProp_grads_bias:
  assumes "backProp_grads arch L1 thetas hypothesis activs targets m dneuron = Inr G1"
    and "backProp_grads arch L2 thetas hypothesis activs targets m dneuron = Inr G2"
  shows "map (apsnd bias_column) G1 = map (apsnd bias_column) G2"
proof -
  from assms(1) obtain d deltas where
    d: "broadcast (\<lambda>x y. x - y) hypothesis targets = Inr d"
    and ds: "foldE (backProp_delta thetas activs dneuron)
               (map int (rev [3..<Suc (length (keys arch))])) [(int (length (keys arch)), d)]
             = Inr deltas"
    and g1: "foldE (backProp_grad L1 thetas deltas activs m) (keys thetas) [] = Inr G1"
    by (auto simp: backProp_grads_def Let_def split: sum.splits)
  from assms(2) d ds have
    g2: "foldE (backProp_grad L2 thetas deltas activs m) (keys thetas) [] = Inr G2"
    by (auto simp: backProp_grads_def Let_def split: sum.splits)
  from g1 g2 show ?thesis by (rule backProp_grad_loop_bias) simp
qed

lemma length_ravel: "length (ravel M) = nrows M * ncols M"
  by (simp add: ravel_def length_concat comp_def sum_list_triv)

lemma getitem_map:
  "getitem (map (apsnd f) d) k = map_sum id f (getitem d k)"
proof -
  have "map_of (map (apsnd f) d) k = map_option f (map_of d k)"
    by (induction d) auto
  then show ?thesis by (simp add: getitem_def split: option.splits)
qed

lemma getitem_related:
  assumes "map (apsnd f) G1 = map (apsnd f) G2"
    and "getitem G1 k = Inr A" and "getitem G2 k = Inr B"
  shows "f A = f B"
proof -
  have "getitem (map (apsnd f) G1) k = getitem (map (apsnd f) G2) k"
    by (simp only: assms(1))
  then show ?thesis by (simp add: getitem_map assms(2) assms(3))
qed

lemma bias_column_shape:
  "bias_column A = bias_column B \<Longrightarrow> nrows A = nrows B \<and> ncols A = ncols B"
proof -
  assume e: "bias_column A = bias_column B"
  have "nrows (bias_column A) = nrows A" "ncols (bias_column A) = ncols A"
    "nrows (bias_column B) = nrows B" "ncols (bias_column B) = ncols B"
    by (simp_all add: bias_column_def)
  then show ?thesis using e by metis
qed

lemma bias_column_entry:
  "bias_column A = bias_column B \<Longrightarrow> entry A i 0 = entry B i 0"
proof -
  assume e: "bias_column A = bias_column B"
  have "entry (bias_column A) i 0 = entry A i 0" "entry (bias_column B) i 0 = entry B i 0"
    by (simp_all add: bias_column_def)
  then show ?thesis using e by metis
qed

lemma flatten_loop_length:
  assumes rel: "map (apsnd bias_column) G1 = map (apsnd bias_column) G2"
  shows "foldE (\<lambda>layer gradients. case getitem G1 layer of Inl e \<Rightarrow> Inl e
                                 | Inr G \<Rightarrow> Inr (gradients @ ravel G)) ks acc1 = Inr g1 \<Longrightarrow>
     foldE (\<lambda>layer gradients. case getitem G2 layer of Inl e \<Rightarrow> Inl e
                                 | Inr G \<Rightarrow> Inr (gradients @ ravel G)) ks acc2 = Inr g2 \<Longrightarrow>
     length acc1 = length acc2 \<Longrightarrow> length g1 = length g2"
proof (induction ks arbitrary: acc1 acc2)
  case Nil
  then show ?case by simp
next
  case (Cons k ks)
  from Cons.prems(1) obtain A where A: "getitem G1 k = Inr A"
    and r1: "foldE (\<lambda>layer gradients. case getitem G1 layer of Inl e \<Rightarrow> Inl e
                                 | Inr G \<Rightarrow> Inr (gradients @ ravel G)) ks (acc1 @ ravel A) = Inr g1"
    by (auto split: sum.splits)
  from Cons.prems(2) obtain B where B: "getitem G2 k = Inr B"
    and r2: "foldE (\<lambda>layer gradients. case getitem G2 layer of Inl e \<Rightarrow> Inl e
                                 | Inr G \<Rightarrow> Inr (gradients @ ravel G)) ks (acc2 @ ravel B) = Inr g2"
    by (auto split: sum.splits)
  have "bias_column A = bias_column B" using rel A B by (rule getitem_related)
  then have "nrows A = nrows B \<and> ncols A = ncols B" by (rule bias_column_shape)
  then have "length (acc1 @ ravel A) = length (acc2 @ ravel B)"
    using Cons.prems(3) by (simp add: length_ravel)
  with Cons.IH[OF r1 r2] show ?case by blast
qed

lemma flatten_length:
  assumes rel: "map (apsnd bias_column) G1 = map (apsnd bias_column) G2"
    and f1: "flatten G1 = Inr g1" and f2: "flatten G2 = Inr g2"
  shows "length g1 = length g2"
proof -
  have "map fst (map (apsnd bias_column) G1) = map fst (map (apsnd bias_column) G2)"
    by (simp only: rel)
  then have ks: "keys G1 = keys G2" by (simp add: keys_def comp_def)
  from f1 obtain A where A: "getitem G1 1 = Inr A"
    and l1: "foldE (\<lambda>layer gradients. case getitem G1 layer of Inl e \<Rightarrow> Inl e
                 | Inr G \<Rightarrow> Inr (gradients @ ravel G)) (drop 1 (keys G1)) (ravel A) = Inr g1"
    by (auto simp: flatten_def split: sum.splits)
  from f2 obtain B where B: "getitem G2 1 = Inr B"
    and l2: "foldE (\<lambda>layer gradients. case getitem G2 layer of Inl e \<Rightarrow> Inl e
                 | Inr G \<Rightarrow> Inr (gradients @ ravel G)) (drop 1 (keys G1)) (ravel B) = Inr g2"
    by (auto simp: flatten_def ks split: sum.splits)
  have "bias_column A = bias_column B" using rel A B by (rule getitem_related)
  then have "nrows A = nrows B \<and> ncols A = ncols B" by (rule bias_column_shape)
  then have "length (ravel A) = length (ravel B)" by (simp add: length_ravel)
  with flatten_loop_length[OF rel l1 l2] show ?thesis by blast
qed

text \<open>
  Claim C5. Two runs of \<open>backProp\<close> that differ only in \<open>LAMBDA\<close> return
  gradient vectors of the same length, flattened from gradient matrices with the
  same layers and shapes whose columns 0 (the bias columns) are identical: only
  the other columns depend on \<open>LAMBDA\<close>.
\<close>

theorem backProp_bias_independent_of_LAMBDA:
  assumes "backProp arch L1 thetas hypothesis activs targets m dneuron = Inr g1"
    and "backProp arch L2 thetas hypothesis activs targets m dneuron = Inr g2"
  shows "\<exists>G1 G2. backProp_grads arch L1 thetas hypothesis activs targets m dneuron = Inr G1
           \<and> flatten G1 = Inr g1
           \<and> backProp_grads arch L2 thetas hypothesis activs targets m dneuron = Inr G2
           \<and> flatten G2 = Inr g2
           \<and> keys G1 = keys G2
           \<and> (\<forall>layer A B. getitem G1 layer = Inr A \<longrightarrow> getitem G2 layer = Inr B \<longrightarrow>
                 nrows A = nrows B \<and> ncols A = ncols B \<and> (\<forall>i. entry A i 0 = entry B i 0))
           \<and> length g1 = length g2"
proof -
  from assms(1) obtain G1 where
    b1: "backProp_grads arch L1 thetas hypothesis activs targets m dneuron = Inr G1"
    and f1: "flatten G1 = Inr g1"
    by (auto simp: backProp_def split: sum.splits)
  from assms(2) obtain G2 where
    b2: "backProp_grads arch L2 thetas hypothesis activs targets m dneuron = Inr G2"
    and f2: "flatten G2 = Inr g2"
    by (auto simp: backProp_def split: sum.splits)
  have rel: "map (apsnd bias_column) G1 = map (apsnd bias_column) G2"
    using b1 b2 by (rule backProp_grads_bias)
  have "map fst (map (apsnd bias_column) G1) = map fst (map (apsnd bias_column) G2)"
    by (simp only: rel)
  then have ks: "keys G1 = keys G2" by (simp add: keys_def comp_def)
  have cols: "\<forall>layer A B. getitem G1 layer = Inr A \<longrightarrow> getitem G2 layer = Inr B \<longrightarrow>
                 nrows A = nrows B \<and> ncols A = ncols B \<and> (\<forall>i. entry A i 0 = entry B i 0)"
    using getitem_related[OF rel] bias_column_shape bias_column_entry by blast
  have len: "length g1 = length g2" using rel f1 f2 by (rule flatten_length)
  from b1 f1 b2 f2 ks cols len show ?thesis by blast
qed

lemma backProp_example_0:
  "backProp [(1, 2), (0, 2), (2, 1)] 0
     [(1, of_rows [[1, 2, 3], [4, 5, 6]]), (2, of_rows [[1, 1, 1]])]
     (of_rows [[15, 13]])
     [(1, of_rows [[1, 1], [0, 1], [1, 0]]), (2, of_rows [[1, 1], [4, 3], [10, 9]])]
     (of_rows [[1, 0]]) 2 (\<lambda>x. x * (1 - x))
   = Inr [- 123, - 1098, - 39, - 468, - 84, - 630, 27 / 2, 95 / 2, 257 / 2]"
  by (simp add: backProp_def backProp_grads_def backProp_delta_def backProp_grad_def
      flatten_def ravel_def keys_def getitem_def dot_def of_rows_def broadcast_def bdim_def
      transpose_matrix_def map_matrix_def scale_def drop_first_row_def drop_first_col_def
      assign_from_col1_def upt_rec Let_def)

lemma backProp_example_3:
  "backProp [(1, 2), (0, 2), (2, 1)] 3
     [(1, of_rows [[1, 2, 3], [4, 5, 6]]), (2, of_rows [[1, 1, 1]])]
     (of_rows [[15, 13]])
     [(1, of_rows [[1, 1], [0, 1], [1, 0]]), (2, of_rows [[1, 1], [4, 3], [10, 9]])]
     (of_rows [[1, 0]]) 2 (\<lambda>x. x * (1 - x))
   = Inr [- 123, - 1098, - 36, - (921 / 2), - (159 / 2), - 621, 27 / 2, 49, 130]"
  by (simp add: backProp_def backProp_grads_def backProp_delta_def backProp_grad_def
      flatten_def ravel_def keys_def getitem_def dot_def of_rows_def broadcast_def bdim_def
      transpose_matrix_def map_matrix_def scale_def drop_first_row_def drop_first_col_def
      assign_from_col1_def upt_rec Let_def)

theorem backProp_bias_independent_of_LAMBDA_witness:
  "backProp [(1, 2), (0, 2), (2, 1)] 0
     [(1, of_rows [[1, 2, 3], [4, 5, 6]]), (2, of_rows [[1, 1, 1]])]
     (of_rows [[15, 13]])
     [(1, of_rows [[1, 1], [0, 1], [1, 0]]), (2, of_rows [[1, 1], [4, 3], [10, 9]])]
     (of_rows [[1, 0]]) 2 (\<lambda>x. x * (1 - x))
   = Inr [- 123, - 1098, - 39, - 468, - 84, - 630, 27 / 2, 95 / 2, 257 / 2]
   \<and> backProp [(1, 2), (0, 2), (2, 1)] 3
     [(1, of_rows [[1, 2, 3], [4, 5, 6]]), (2, of_rows [[1, 1, 1]])]
     (of_rows [[15, 13]])
     [(1, of_rows [[1, 1], [0, 1], [1, 0]]), (2, of_rows [[1, 1], [4, 3], [10, 9]])]
     (of_rows [[1, 0]]) 2 (\<lambda>x. x * (1 - x))
   = Inr [- 123, - 1098, - 36, - (921 / 2), - (159 / 2), - 621, 27 / 2, 49, 130]
   \<and> (\<exists>G1 G2. flatten G1 = Inr [- 123, - 1098, - 39, - 468, - 84, - 630, 27 / 2, 95 / 2, 257 / 2]
         \<and> flatten G2 = Inr [- 123, - 1098, - 36, - (921 / 2), - (159 / 2), - 621, 27 / 2, 49, 130]
         \<and> keys G1 = keys G2
         \<and> (\<forall>layer A B. getitem G1 layer = Inr A \<longrightarrow> getitem G2 layer = Inr B \<longrightarrow>
                 nrows A = nrows B \<and> ncols A = ncols B \<and> (\<forall>i. entry A i 0 = entry B i 0)))"
proof -
  note t = backProp_bias_independent_of_LAMBDA[OF backProp_example_0 backProp_example_3]
  from t obtain G1 G2 where
    "flatten G1 = Inr [- 123, - 1098, - 39, - 468, - 84, - 630, 27 / 2, 95 / 2, 257 / 2]"
    "flatten G2 = Inr [- 123, - 1098, - 36, - (921 / 2), - (159 / 2), - 621, 27 / 2, 49, 130]"
    "keys G1 = keys G2"
    "\<forall>layer A B. getitem G1 layer = Inr A \<longrightarrow> getitem G2 layer = Inr B \<longrightarrow>
                 nrows A = nrows B \<and> ncols A = ncols B \<and> (\<forall>i. entry A i 0 = entry B i 0)"
    by blast
  with backProp_example_0 backProp_example_3 show ?thesis by blast
qed

section \<open>The shape of the gradient\<close>

lemma shaped_atD:
  "shaped_at d k r c \<Longrightarrow> \<exists>M. getitem d k = Inr M \<and> shaped r c M"
  by (auto simp: shaped_at_def split: sum.splits)

lemma shaped_atI: "getitem d k = Inr M \<Longrightarrow> shaped r c M \<Longrightarrow> shaped_at d k r c"
  by (simp add: shaped_at_def)

lemma shaped_at_setitem:
  "shaped_at (setitem d k v) k' r c = (if k' = k then shaped r c v else shaped_at d k' r c)"
  by (simp add: shaped_at_def getitem_setitem)

lemma dot_shaped:
  "shaped r k A \<Longrightarrow> shaped k c B \<Longrightarrow> \<exists>P. dot A B = Inr P \<and> shaped r c P"
  by (simp add: shaped_def dot_def)

lemma transpose_shaped: "shaped r c A \<Longrightarrow> shaped c r (transpose_matrix A)"
  by (simp add: shaped_def transpose_matrix_def)

lemma map_matrix_shaped: "shaped r c A \<Longrightarrow> shaped r c (map_matrix f A)"
  by (simp add: shaped_def map_matrix_def)

lemma scale_shaped: "shaped r c A \<Longrightarrow> shaped r c (scale x A)"
  by (simp add: scale_def map_matrix_shaped)

lemma drop_first_row_shaped: "shaped (Suc r) c A \<Longrightarrow> shaped r c (drop_first_row A)"
  by (simp add: shaped_def drop_first_row_def)

lemma drop_first_col_shaped: "shaped r (Suc c) A \<Longrightarrow> shaped r c (drop_first_col A)"
  by (simp add: shaped_def drop_first_col_def)

lemma broadcast_shaped:
  "shaped r c A \<Longrightarrow> shaped r c B \<Longrightarrow> \<exists>C. broadcast f A B = Inr C \<and> shaped r c C"
  by (simp add: shaped_def broadcast_def bdim_def)

lemma assign_from_col1_shaped:
  "shaped r (Suc c) G \<Longrightarrow> shaped r c R \<Longrightarrow>
   \<exists>G'. assign_from_col1 G R = Inr G' \<and> shaped r (Suc c) G'"
  by (simp add: shaped_def assign_from_col1_def)

lemma backProp_shapes_at:
  assumes "backProp_shapes sizes mm thetas hypothesis activs targets"
    and "1 \<le> l" and "l < length sizes"
  shows "shaped_at thetas (int l) (sizes ! l) (Suc (sizes ! (l - 1)))"
    and "shaped_at activs (int l) (Suc (sizes ! (l - 1))) mm"
  using assms by (auto simp: backProp_shapes_def list_all_iff)

lemma deltas_shapes_at:
  "deltas_shapes sizes mm k deltas \<Longrightarrow> k \<le> l \<Longrightarrow> l \<le> length sizes \<Longrightarrow>
   shaped_at deltas (int l) (sizes ! (l - 1)) mm"
  by (auto simp: deltas_shapes_def list_all_iff)

lemma backProp_delta_shaped:
  assumes S: "backProp_shapes sizes mm thetas hypothesis activs targets"
    and D: "deltas_shapes sizes mm (Suc k) deltas"
    and k: "2 \<le> k" "k < length sizes"
  shows "\<exists>deltas'. backProp_delta thetas activs dneuron (int (Suc k)) deltas = Inr deltas'
           \<and> deltas_shapes sizes mm k deltas'"
proof -
  have k1: "1 \<le> k" using k by simp
  have ik: "int (Suc k) - 1 = int k" by simp
  obtain k' where k': "k = Suc k'" using k by (cases k) auto
  from shaped_atD[OF backProp_shapes_at(1)[OF S k1 k(2)]] obtain T where
    T: "getitem thetas (int k) = Inr T" "shaped (sizes ! k) (Suc (sizes ! k')) T"
    by (auto simp: k')
  from shaped_atD[OF backProp_shapes_at(2)[OF S k1 k(2)]] obtain A where
    A: "getitem activs (int k) = Inr A" "shaped (Suc (sizes ! k')) mm A"
    by (auto simp: k')
  have "shaped_at deltas (int (Suc k)) (sizes ! (Suc k - 1)) mm"
    using D k by (intro deltas_shapes_at[where k="Suc k"]) auto
  from shaped_atD[OF this] obtain Dl where
    Dl: "getitem deltas (int (Suc k)) = Inr Dl" "shaped (sizes ! k) mm Dl" by auto
  from dot_shaped[OF transpose_shaped[OF T(2)] Dl(2)] obtain P where
    P: "dot (transpose_matrix T) Dl = Inr P" "shaped (Suc (sizes ! k')) mm P" by blast
  from broadcast_shaped[OF P(2) map_matrix_shaped[OF A(2)]] obtain d where
    d: "broadcast (\<lambda>x y. x * y) P (map_matrix dneuron A) = Inr d"
       "shaped (Suc (sizes ! k')) mm d" by blast
  have new: "shaped (sizes ! (k - 1)) mm (drop_first_row d)"
    using drop_first_row_shaped[OF d(2)] by (simp add: k')
  have step: "backProp_delta thetas activs dneuron (int (Suc k)) deltas
              = Inr (setitem deltas (int k) (drop_first_row d))"
    unfolding backProp_delta_def by (simp only: ik T(1) Dl(1) P(1) A(1) d(1) sum.case)
  have "deltas_shapes sizes mm k (setitem deltas (int k) (drop_first_row d))"
    unfolding deltas_shapes_def list_all_iff
  proof
    fix l assume "l \<in> set [k..<Suc (length sizes)]"
    then have l: "k \<le> l" "l \<le> length sizes" by auto
    show "shaped_at (setitem deltas (int k) (drop_first_row d)) (int l) (sizes ! (l - 1)) mm"
    proof (cases "l = k")
      case True
      then show ?thesis using new by (simp add: shaped_at_setitem)
    next
      case False
      then have "Suc k \<le> l" using l by simp
      from deltas_shapes_at[OF D this l(2)] False show ?thesis
        by (simp add: shaped_at_setitem)
    qed
  qed
  with step show ?thesis by blast
qed

lemma backProp_delta_loop:
  assumes S: "backProp_shapes sizes mm thetas hypothesis activs targets"
  shows "2 \<le> k \<Longrightarrow> k \<le> length sizes \<Longrightarrow> deltas_shapes sizes mm k deltas \<Longrightarrow>
     \<exists>deltas'. foldE (backProp_delta thetas activs dneuron) (map int (rev [3..<Suc k])) deltas
                 = Inr deltas'
              \<and> deltas_shapes sizes mm 2 deltas'"
proof (induction k arbitrary: deltas)
  case 0
  then show ?case by simp
next
  case (Suc k)
  show ?case
  proof (cases "Suc k = 2")
    case True
    then have "[3..<Suc (Suc k)] = []" by simp
    then show ?thesis using Suc.prems(3) True by simp
  next
    case False
    then have k: "2 \<le> k" "k < length sizes" using Suc.prems by auto
    from backProp_delta_shaped[OF S Suc.prems(3) k, of dneuron] obtain d1 where
      step: "backProp_delta thetas activs dneuron (int (Suc k)) deltas = Inr d1"
      and d1: "deltas_shapes sizes mm k d1" by blast
    have "k \<le> length sizes" using k by simp
    from Suc.IH[OF k(1) this d1] obtain deltas' where
      rest: "foldE (backProp_delta thetas activs dneuron) (map int (rev [3..<Suc k])) d1
             = Inr deltas'"
      and ok: "deltas_shapes sizes mm 2 deltas'" by blast
    have "3 \<le> Suc k" using k by simp
    then have "[3..<Suc (Suc k)] = [3..<Suc k] @ [Suc k]" by simp
    then have "map int (rev [3..<Suc (Suc k)]) = int (Suc k) # map int (rev [3..<Suc k])"
      by simp
    then have "foldE (backProp_delta thetas activs dneuron) (map int (rev [3..<Suc (Suc k)])) deltas
               = Inr deltas'"
      using step rest by (simp only: foldE.simps sum.case)
    with ok show ?thesis by blast
  qed
qed

lemma grads_shapes_at:
  "grads_shapes sizes k grads \<Longrightarrow> 1 \<le> l \<Longrightarrow> l < k \<Longrightarrow>
   shaped_at grads (int l) (sizes ! l) (sizes ! (l - 1) + 1)"
  by (auto simp: grads_shapes_def list_all_iff)

lemma backProp_grad_shaped:
  assumes S: "backProp_shapes sizes mm thetas hypothesis activs targets"
    and D: "deltas_shapes sizes mm 2 deltas"
    and G: "grads_shapes sizes k grads"
    and m: "m \<noteq> 0"
    and k: "1 \<le> k" "k < length sizes"
  shows "\<exists>grads'. backProp_grad LAMBDA thetas deltas activs m (int k) grads = Inr grads'
           \<and> grads_shapes sizes (Suc k) grads'"
proof -
  obtain k' where k': "k = Suc k'" using k by (cases k) auto
  have ik: "int k + 1 = int (Suc k)" by simp
  from shaped_atD[OF backProp_shapes_at(1)[OF S k]] obtain T where
    T: "getitem thetas (int k) = Inr T" "shaped (sizes ! k) (Suc (sizes ! k')) T"
    by (auto simp: k')
  from shaped_atD[OF backProp_shapes_at(2)[OF S k]] obtain A where
    A: "getitem activs (int k) = Inr A" "shaped (Suc (sizes ! k')) mm A"
    by (auto simp: k')
  have "shaped_at deltas (int (Suc k)) (sizes ! (Suc k - 1)) mm"
    using D k by (intro deltas_shapes_at[where k=2]) auto
  from shaped_atD[OF this] obtain Dl where
    Dl: "getitem deltas (int (Suc k)) = Inr Dl" "shaped (sizes ! k) mm Dl" by auto
  from dot_shaped[OF Dl(2) transpose_shaped[OF A(2)]] obtain P where
    P: "dot Dl (transpose_matrix A) = Inr P" "shaped (sizes ! k) (Suc (sizes ! k')) P" by blast
  have sP: "shaped (sizes ! k) (Suc (sizes ! k')) (scale (1 / m) P)"
    using P(2) by (rule scale_shaped)
  have a: "shaped (sizes ! k) (sizes ! k') (drop_first_col (scale (1 / m) P))"
    using sP by (rule drop_first_col_shaped)
  have b: "shaped (sizes ! k) (sizes ! k') (scale (1 / m) (scale LAMBDA (drop_first_col T)))"
    by (intro scale_shaped drop_first_col_shaped T(2))
  from broadcast_shaped[OF a b] obtain R where
    R: "broadcast (\<lambda>x y. x + y) (drop_first_col (scale (1 / m) P))
          (scale (1 / m) (scale LAMBDA (drop_first_col T))) = Inr R"
       "shaped (sizes ! k) (sizes ! k') R" by blast
  from assign_from_col1_shaped[OF sP R(2)] obtain g where
    g: "assign_from_col1 (scale (1 / m) P) R = Inr g" "shaped (sizes ! k) (Suc (sizes ! k')) g"
    by blast
  have step: "backProp_grad LAMBDA thetas deltas activs m (int k) grads
              = Inr (setitem grads (int k) g)"
    unfolding backProp_grad_def
    by (simp only: m if_False ik Dl(1) A(1) P(1) T(1) R(1) g(1) sum.case)
  have fresh: "int k \<notin> set (keys grads)" using G by (auto simp: grads_shapes_def)
  have up: "[1..<Suc k] = [1..<k] @ [k]" using k by simp
  have ks: "keys (setitem grads (int k) g) = map int [1..<Suc k]"
    using G fresh k by (simp add: keys_setitem grads_shapes_def up)
  have "list_all (\<lambda>l. shaped_at (setitem grads (int k) g) (int l) (sizes ! l) (sizes ! (l - 1) + 1))
          [1..<Suc k]"
    unfolding list_all_iff
  proof
    fix l assume "l \<in> set [1..<Suc k]"
    then have l: "1 \<le> l" "l \<le> k" by auto
    show "shaped_at (setitem grads (int k) g) (int l) (sizes ! l) (sizes ! (l - 1) + 1)"
    proof (cases "l = k")
      case True
      then show ?thesis using g(2) by (simp add: shaped_at_setitem k')
    next
      case False
      then have "l < k" using l by simp
      from grads_shapes_at[OF G l(1) this] False show ?thesis
        by (simp add: shaped_at_setitem)
    qed
  qed
  with ks have "grads_shapes sizes (Suc k) (setitem grads (int k) g)"
    by (simp add: grads_shapes_def)
  with step show ?thesis by blast
qed

lemma backProp_grad_loop:
  assumes S: "backProp_shapes sizes mm thetas hypothesis activs targets"
    and D: "deltas_shapes sizes mm 2 deltas"
    and m: "m \<noteq> 0"
  shows "1 \<le> k \<Longrightarrow> k \<le> length sizes \<Longrightarrow> grads_shapes sizes k grads \<Longrightarrow>
     \<exists>grads'. foldE (backProp_grad LAMBDA thetas deltas activs m) (map int [k..<length sizes]) grads
                = Inr grads'
             \<and> grads_shapes sizes (length sizes) grads'"
proof (induction "length sizes - k" arbitrary: k grads)
  case 0
  then have "k = length sizes" by simp
  then show ?case using "0.prems"(3) by simp
next
  case (Suc d)
  then have k: "1 \<le> k" "k < length sizes" by auto
  from backProp_grad_shaped[OF S D Suc.prems(3) m k, of LAMBDA] obtain g1 where
    step: "backProp_grad LAMBDA thetas deltas activs m (int k) grads = Inr g1"
    and g1: "grads_shapes sizes (Suc k) g1" by blast
  have "d = length sizes - Suc k" using Suc.hyps(2) by simp
  from Suc.hyps(1)[OF this _ _ g1] k obtain grads' where
    rest: "foldE (backProp_grad LAMBDA thetas deltas activs m) (map int [Suc k..<length sizes]) g1
           = Inr grads'"
    and ok: "grads_shapes sizes (length sizes) grads'" by auto
  have "[k..<length sizes] = k # [Suc k..<length sizes]" using k by (simp add: upt_conv_Cons)
  then have "foldE (backProp_grad LAMBDA thetas deltas activs m) (map int [k..<length sizes]) grads
             = Inr grads'"
    using step rest by simp
  with ok show ?case by blast
qed

lemma backProp_grads_shaped:
  assumes S: "backProp_shapes sizes mm thetas hypothesis activs targets"
    and n: "2 \<le> length sizes" and arch: "length (keys arch) = length sizes"
    and m: "m \<noteq> 0"
  shows "\<exists>grads. backProp_grads arch LAMBDA thetas hypothesis activs targets m dneuron = Inr grads
           \<and> grads_shapes sizes (length sizes) grads"
proof -
  have h: "shaped (sizes ! (length sizes - 1)) mm hypothesis"
    and t: "shaped (sizes ! (length sizes - 1)) mm targets"
    and ks: "keys thetas = map int [1..<length sizes]"
    using S by (simp_all add: backProp_shapes_def)
  from broadcast_shaped[OF h t] obtain d where
    d: "broadcast (\<lambda>x y. x - y) hypothesis targets = Inr d"
       "shaped (sizes ! (length sizes - 1)) mm d" by blast
  have "shaped_at [(int (length sizes), d)] (int (length sizes)) (sizes ! (length sizes - 1)) mm"
    using d(2) by (simp add: shaped_at_def getitem_def)
  then have d0: "deltas_shapes sizes mm (length sizes) [(int (length sizes), d)]"
    by (simp add: deltas_shapes_def)
  from backProp_delta_loop[OF S n _ d0, of dneuron] obtain deltas where
    ds: "foldE (backProp_delta thetas activs dneuron) (map int (rev [3..<Suc (length sizes)]))
           [(int (length sizes), d)] = Inr deltas"
    and dok: "deltas_shapes sizes mm 2 deltas" by auto
  have g0: "grads_shapes sizes 1 []" by (simp add: grads_shapes_def keys_def)
  have "1 \<le> length sizes" using n by simp
  from backProp_grad_loop[OF S dok m _ this g0, of LAMBDA] obtain grads where
    gs: "foldE (backProp_grad LAMBDA thetas deltas activs m) (map int [1..<length sizes]) []
         = Inr grads"
    and gok: "grads_shapes sizes (length sizes) grads" by auto
  have "backProp_grads arch LAMBDA thetas hypothesis activs targets m dneuron = Inr grads"
    unfolding backProp_grads_def Let_def
    by (simp only: arch d(1) ds ks gs sum.case)
  with gok show ?thesis by blast
qed

lemma flatten_keys:
  assumes n: "2 \<le> n" and ks: "keys G = map int [1..<n]"
    and at: "\<And>l. 1 \<le> l \<Longrightarrow> l < n \<Longrightarrow> getitem G (int l) = Inr (f l)"
  shows "flatten G = Inr (concat (map (\<lambda>l. ravel (f l)) [1..<n]))"
proof -
  have "1 < n" using n by simp
  then have "[1..<n] = 1 # [Suc 1..<n]" by (rule upt_conv_Cons)
  then have up: "[1..<n] = 1 # [2..<n]" by (simp only: Suc_1)
  have g1: "getitem G 1 = Inr (f 1)" using at[of 1] n by simp
  have "keys G = int 1 # map int [2..<n]" by (simp only: ks up list.map)
  then have dk: "drop 1 (keys G) = map int [2..<n]" by simp
  have "\<And>k. k \<in> set [2..<n] \<Longrightarrow> getitem G (int k) = Inr (f k)"
    by (rule at) auto
  then have loop: "foldE (\<lambda>layer gradients. case getitem G layer of Inl e \<Rightarrow> Inl e
                             | Inr M \<Rightarrow> Inr (gradients @ ravel M))
         (map int [2..<n]) (ravel (f 1))
     = Inr (ravel (f 1) @ concat (map (\<lambda>k. ravel (f k)) [2..<n]))"
    by (rule flatten_loop)
  have c: "concat (map (\<lambda>l. ravel (f l)) [1..<n])
           = ravel (f 1) @ concat (map (\<lambda>k. ravel (f k)) [2..<n])"
    by (simp only: up list.map concat.simps)
  show ?thesis unfolding flatten_def by (simp only: g1 sum.case dk loop c)
qed

lemma sum_list_shift:
  "(\<Sum>l \<leftarrow> [1..<Suc k]. h l) = (\<Sum>l \<leftarrow> [0..<k]. h (l + 1))"
  by (induction k) simp_all

lemma grads_length:
  assumes n: "2 \<le> length sizes"
    and at: "\<And>l. 1 \<le> l \<Longrightarrow> l < length sizes \<Longrightarrow> shaped (sizes ! l) (sizes ! (l - 1) + 1) (f l)"
  shows "length (concat (map (\<lambda>l. ravel (f l)) [1..<length sizes])) = paramCount sizes"
proof -
  have S: "Suc (length sizes - 1) = length sizes" using n by simp
  have eq: "map (\<lambda>l. length (ravel (f l))) [1..<length sizes]
        = map (\<lambda>l. sizes ! l * (sizes ! (l - 1) + 1)) [1..<length sizes]"
  proof (rule map_cong[OF refl])
    fix l assume "l \<in> set [1..<length sizes]"
    then have "shaped (sizes ! l) (sizes ! (l - 1) + 1) (f l)" by (intro at) auto
    then show "length (ravel (f l)) = sizes ! l * (sizes ! (l - 1) + 1)"
      by (simp add: length_ravel shaped_def)
  qed
  have "length (concat (map (\<lambda>l. ravel (f l)) [1..<length sizes]))
        = sum_list (map (\<lambda>l. length (ravel (f l))) [1..<length sizes])"
    by (simp add: length_concat comp_def)
  also have "\<dots> = (\<Sum>l \<leftarrow> [1..<length sizes]. sizes ! l * (sizes ! (l - 1) + 1))"
    by (simp only: eq)
  also have "\<dots> = (\<Sum>l \<leftarrow> [1..<Suc (length sizes - 1)]. sizes ! l * (sizes ! (l - 1) + 1))"
    by (simp only: S)
  also have "\<dots> = (\<Sum>l \<leftarrow> [0..<length sizes - 1]. sizes ! (l + 1) * (sizes ! (l + 1 - 1) + 1))"
    by (rule sum_list_shift)
  finally show ?thesis by (simp add: paramCount_def)
qed

lemma concat_nth_uniform:
  "(\<And>x. x \<in> set xss \<Longrightarrow> length x = r) \<Longrightarrow> j < length xss \<Longrightarrow> i < r \<Longrightarrow>
   concat xss ! (i + j * r) = xss ! j ! i"
proof (induction xss arbitrary: j)
  case Nil
  then show ?case by simp
next
  case (Cons x xss)
  have lx: "length x = r" using Cons.prems(1) by simp
  show ?case
  proof (cases j)
    case 0
    then show ?thesis using Cons.prems(3) lx by (simp add: nth_append)
  next
    case (Suc j')
    have "concat xss ! (i + j' * r) = xss ! j' ! i"
      using Cons.prems Suc by (intro Cons.IH) auto
    moreover have "i + Suc j' * r = r + (i + j' * r)" by simp
    ultimately show ?thesis using Suc lx by (simp only: concat.simps nth_append_length_plus[of x, unfolded lx] nth_Cons_Suc)
  qed
qed

lemma ravel_nth:
  assumes "i < nrows M" and "j < ncols M"
  shows "ravel M ! (i + j * nrows M) = entry M i j"
proof -
  have "concat (map (\<lambda>j. map (\<lambda>i. entry M i j) [0..<nrows M]) [0..<ncols M]) ! (i + j * nrows M)
        = map (\<lambda>j. map (\<lambda>i. entry M i j) [0..<nrows M]) [0..<ncols M] ! j ! i"
    using assms by (intro concat_nth_uniform) auto
  then show ?thesis using assms by (simp add: ravel_def)
qed

lemma chunk_of_concat: "take (length b) (drop (length a) (a @ b @ c)) = b"
  by simp

lemma prefix_length:
  assumes at: "\<And>l. 1 \<le> l \<Longrightarrow> l < length sizes \<Longrightarrow> shaped (sizes ! l) (sizes ! (l - 1) + 1) (f l)"
  shows "k < length sizes \<Longrightarrow>
         length (concat (map (\<lambda>l. ravel (f l)) [1..<Suc k])) = offs sizes k"
proof (induction k)
  case 0
  then show ?case by (simp add: offs_def)
next
  case (Suc k)
  have "shaped (sizes ! Suc k) (sizes ! (Suc k - 1) + 1) (f (Suc k))"
    using Suc.prems by (intro at) auto
  then have "length (ravel (f (Suc k))) = sizes ! (k + 1) * (sizes ! k + 1)"
    by (simp add: length_ravel shaped_def)
  moreover have "length (concat (map (\<lambda>l. ravel (f l)) [1..<Suc k])) = offs sizes k"
    using Suc by simp
  ultimately show ?case by (simp add: offs_Suc)
qed

lemma slice_gradients:
  assumes at: "\<And>l. 1 \<le> l \<Longrightarrow> l < length sizes \<Longrightarrow> shaped (sizes ! l) (sizes ! (l - 1) + 1) (f l)"
    and l: "1 \<le> l" "l < length sizes"
  shows "slice (concat (map (\<lambda>l. ravel (f l)) [1..<length sizes])) (offs sizes (l - 1)) (offs sizes l)
         = ravel (f l)"
proof -
  obtain l' where l': "l = Suc l'" using l by (cases l) auto
  have lm: "l - 1 = l'" by (simp add: l')
  have a: "[1..<l + (length sizes - l)] = [1..<l] @ [l..<l + (length sizes - l)]"
    using l by (intro upt_add_eq_append) simp
  have b: "l + (length sizes - l) = length sizes" using l by simp
  have c: "[l..<length sizes] = l # [Suc l..<length sizes]"
    using l by (simp add: upt_conv_Cons)
  have "[1..<length sizes] = [1..<l] @ [l..<length sizes]" using a by (simp only: b)
  then have split: "[1..<length sizes] = [1..<l] @ l # [Suc l..<length sizes]"
    by (simp only: c)
  have "l' < length sizes" using l by (simp add: l')
  from prefix_length[OF at this]
  have la: "length (concat (map (\<lambda>l. ravel (f l)) [1..<l])) = offs sizes l'"
    by (simp only: l'[symmetric])
  have "shaped (sizes ! l) (sizes ! (l - 1) + 1) (f l)" using l by (intro at)
  then have lb: "length (ravel (f l)) = sizes ! (l' + 1) * (sizes ! l' + 1)"
    by (simp add: length_ravel shaped_def l')
  have "offs sizes l = offs sizes l' + length (ravel (f l))"
    unfolding lb unfolding l' by (rule offs_Suc)
  then have diff: "offs sizes l - offs sizes l' = length (ravel (f l))"
    by simp
  have "concat (map (\<lambda>l. ravel (f l)) [1..<length sizes])
        = concat (map (\<lambda>l. ravel (f l)) [1..<l]) @ ravel (f l)
          @ concat (map (\<lambda>l. ravel (f l)) [Suc l..<length sizes])"
    by (simp only: split map_append concat_append list.map concat.simps)
  then have "slice (concat (map (\<lambda>l. ravel (f l)) [1..<length sizes])) (offs sizes l') (offs sizes l)
        = take (length (ravel (f l))) (drop (length (concat (map (\<lambda>l. ravel (f l)) [1..<l])))
            (concat (map (\<lambda>l. ravel (f l)) [1..<l]) @ ravel (f l)
              @ concat (map (\<lambda>l. ravel (f l)) [Suc l..<length sizes])))"
    by (simp only: slice_def diff la)
  also have "\<dots> = ravel (f l)" by (rule chunk_of_concat)
  finally show ?thesis by (simp only: lm)
qed

lemma layerMatrix_same_entries:
  assumes at: "\<And>l. 1 \<le> l \<Longrightarrow> l < length sizes \<Longrightarrow> shaped (sizes ! l) (sizes ! (l - 1) + 1) (f l)"
    and l: "1 \<le> l" "l < length sizes"
  shows "same_entries
           (layerMatrix sizes (concat (map (\<lambda>l. ravel (f l)) [1..<length sizes])) l) (f l)"
proof -
  have sh: "shaped (sizes ! l) (sizes ! (l - 1) + 1) (f l)" using l by (intro at)
  then have r: "nrows (f l) = sizes ! l" and c: "ncols (f l) = sizes ! (l - 1) + 1"
    by (simp_all add: shaped_def)
  have e: "\<And>i j. i < sizes ! l \<Longrightarrow> j < sizes ! (l - 1) + 1 \<Longrightarrow>
     entry (layerMatrix sizes (concat (map (\<lambda>l. ravel (f l)) [1..<length sizes])) l) i j
     = entry (f l) i j"
  proof -
    fix i j assume i: "i < sizes ! l" and j: "j < sizes ! (l - 1) + 1"
    note sg = slice_gradients[OF at l]
    have "ravel (f l) ! (i + j * nrows (f l)) = entry (f l) i j"
      using i j r c by (intro ravel_nth) simp_all
    with sg show "entry (layerMatrix sizes (concat (map (\<lambda>l. ravel (f l)) [1..<length sizes])) l) i j
     = entry (f l) i j"
      by (simp add: layerMatrix_def r)
  qed
  show ?thesis
    unfolding same_entries_def list_all_iff
    using e by (simp add: layerMatrix_def r c)
qed

lemma backProp_layout:
  assumes L: "layered sizes arch"
    and S: "backProp_shapes sizes mm thetas hypothesis activs targets"
    and m: "m \<noteq> 0"
  shows "\<exists>grads gradients unflattened.
           backProp_grads arch LAMBDA thetas hypothesis activs targets m dneuron = Inr grads
         \<and> grads_shapes sizes (length sizes) grads
         \<and> flatten grads = Inr gradients
         \<and> backProp arch LAMBDA thetas hypothesis activs targets m dneuron = Inr gradients
         \<and> length gradients = paramCount sizes
         \<and> reshapeParams arch gradients = Inr unflattened
         \<and> keys unflattened = keys grads
         \<and> list_all (\<lambda>l. same_at unflattened grads (int l)) [1..<length sizes]"
proof -
  have n: "2 \<le> length sizes" using L by (rule layered_len)
  have arch: "length (keys arch) = length sizes" using L by (simp add: layered_def keys_def)
  from backProp_grads_shaped[OF S n arch m, of LAMBDA dneuron] obtain grads where
    bg: "backProp_grads arch LAMBDA thetas hypothesis activs targets m dneuron = Inr grads"
    and gs: "grads_shapes sizes (length sizes) grads" by blast
  define f where "f l = projr (getitem grads (int l))" for l
  have at: "getitem grads (int l) = Inr (f l) \<and> shaped (sizes ! l) (sizes ! (l - 1) + 1) (f l)"
    if "1 \<le> l" "l < length sizes" for l
    using shaped_atD[OF grads_shapes_at[OF gs that]] by (auto simp: f_def)
  have sh: "\<And>l. 1 \<le> l \<Longrightarrow> l < length sizes \<Longrightarrow> shaped (sizes ! l) (sizes ! (l - 1) + 1) (f l)"
    using at by blast
  have gi: "\<And>l. 1 \<le> l \<Longrightarrow> l < length sizes \<Longrightarrow> getitem grads (int l) = Inr (f l)"
    using at by blast
  define g where "g = concat (map (\<lambda>l. ravel (f l)) [1..<length sizes])"
  have ks: "keys grads = map int [1..<length sizes]" using gs by (simp add: grads_shapes_def)
  have fl: "flatten grads = Inr g" unfolding g_def using n ks gi by (rule flatten_keys)
  have bp: "backProp arch LAMBDA thetas hypothesis activs targets m dneuron = Inr g"
    by (simp add: backProp_def bg fl)
  have len: "length g = paramCount sizes" unfolding g_def using n sh by (rule grads_length)
  then have "paramCount sizes \<le> length g" by simp
  from reshapeParams_ok[OF L this]
  have rp: "reshapeParams arch g = Inr (map (\<lambda>l. (int l, layerMatrix sizes g l)) [1..<length sizes])" .
  have "keys (map (\<lambda>l. (int l, layerMatrix sizes g l)) [1..<length sizes])
        = map int [1..<length sizes]"
    by (simp add: keys_def comp_def)
  then have uk: "keys (map (\<lambda>l. (int l, layerMatrix sizes g l)) [1..<length sizes]) = keys grads"
    by (simp only: ks)
  have same: "list_all (\<lambda>l. same_at (map (\<lambda>l. (int l, layerMatrix sizes g l)) [1..<length sizes])
                        grads (int l)) [1..<length sizes]"
    unfolding list_all_iff
  proof
    fix l assume "l \<in> set [1..<length sizes]"
    then have l: "1 \<le> l" "l < length sizes" by auto
    have a: "getitem (map (\<lambda>l. (int l, layerMatrix sizes g l)) [1..<length sizes]) (int l)
             = Inr (layerMatrix sizes g l)"
      using l by (rule getitem_layers)
    have "same_entries (layerMatrix sizes g l) (f l)"
      unfolding g_def using sh l by (rule layerMatrix_same_entries)
    then show "same_at (map (\<lambda>l. (int l, layerMatrix sizes g l)) [1..<length sizes]) grads (int l)"
      unfolding same_at_def by (simp only: a gi[OF l] sum.case)
  qed
  from bg gs fl bp len rp uk same show ?thesis by blast
qed

text \<open>
  Claim C7. For a network with layer sizes \<open>sizes\<close> and arguments of the shapes
  the forward pass produces, \<open>backProp\<close> returns; its gradient vector is the
  gradient matrices of the layers 1 to N, each shaped like the weight matrix of
  its layer, flattened column-major in ascending layer order; its length is the
  number of parameters; and \<open>reshapeParams\<close> splits it back into matrices with
  the shapes and entries of the gradient matrices, so it has the layout of the
  parameter vector.
\<close>

theorem backProp_gradient_layout:
  assumes L: "layered sizes arch"
    and S: "backProp_shapes sizes mm thetas hypothesis activs targets"
    and m: "m \<noteq> 0"
  shows "\<exists>grads gradients unflattened.
           backProp_grads arch LAMBDA thetas hypothesis activs targets m dneuron = Inr grads
         \<and> grads_shapes sizes (length sizes) grads
         \<and> flatten grads = Inr gradients
         \<and> backProp arch LAMBDA thetas hypothesis activs targets m dneuron = Inr gradients
         \<and> length gradients = paramCount sizes
         \<and> reshapeParams arch gradients = Inr unflattened
         \<and> keys unflattened = keys grads
         \<and> list_all (\<lambda>l. same_at unflattened grads (int l)) [1..<length sizes]"
  using L S m by (rule backProp_layout)

lemma example_layered: "layered [2, 2, 1] [(1, 2), (0, 2), (2, 1)]"
  by (auto simp add: layered_def keys_def upt_rec less_Suc_eq numeral_3_eq_3)

lemma example_shapes:
  "backProp_shapes [2, 2, 1] 2
     [(1, of_rows [[1, 2, 3], [4, 5, 6]]), (2, of_rows [[1, 1, 1]])]
     (of_rows [[15, 13]])
     [(1, of_rows [[1, 1], [0, 1], [1, 0]]), (2, of_rows [[1, 1], [4, 3], [10, 9]])]
     (of_rows [[1, 0]])"
  by (simp add: backProp_shapes_def keys_def upt_rec shaped_at_def getitem_def shaped_def
      of_rows_def)

theorem backProp_gradient_layout_witness:
  "layered [2, 2, 1] [(1, 2), (0, 2), (2, 1)]
   \<and> backProp_shapes [2, 2, 1] 2
     [(1, of_rows [[1, 2, 3], [4, 5, 6]]), (2, of_rows [[1, 1, 1]])]
     (of_rows [[15, 13]])
     [(1, of_rows [[1, 1], [0, 1], [1, 0]]), (2, of_rows [[1, 1], [4, 3], [10, 9]])]
     (of_rows [[1, 0]])
   \<and> (2 :: real) \<noteq> 0
   \<and> backProp [(1, 2), (0, 2), (2, 1)] 3
     [(1, of_rows [[1, 2, 3], [4, 5, 6]]), (2, of_rows [[1, 1, 1]])]
     (of_rows [[15, 13]])
     [(1, of_rows [[1, 1], [0, 1], [1, 0]]), (2, of_rows [[1, 1], [4, 3], [10, 9]])]
     (of_rows [[1, 0]]) 2 (\<lambda>x. x * (1 - x))
     = Inr [- 123, - 1098, - 36, - (921 / 2), - (159 / 2), - 621, 27 / 2, 49, 130]
   \<and> length [- 123, - 1098, - 36, - (921 / 2), - (159 / 2), - 621, 27 / 2, 49, 130 :: real]
     = paramCount [2, 2, 1]
   \<and> (\<exists>grads unflattened.
         flatten grads = Inr [- 123, - 1098, - 36, - (921 / 2), - (159 / 2), - 621, 27 / 2, 49, 130]
       \<and> reshapeParams [(1, 2), (0, 2), (2, 1)]
           [- 123, - 1098, - 36, - (921 / 2), - (159 / 2), - 621, 27 / 2, 49, 130]
           = Inr unflattened
       \<and> keys unflattened = keys grads
       \<and> list_all (\<lambda>l. same_at unflattened grads (int l)) [1..<length [2, 2, 1 :: nat]])"
proof -
  have m: "(2 :: real) \<noteq> 0" by simp
  from backProp_gradient_layout[OF example_layered example_shapes m, of 3 "\<lambda>x. x * (1 - x)"]
  obtain grads gradients unflattened where
    fl: "flatten grads = Inr gradients"
    and bp: "backProp [(1, 2), (0, 2), (2, 1)] 3
     [(1, of_rows [[1, 2, 3], [4, 5, 6]]), (2, of_rows [[1, 1, 1]])]
     (of_rows [[15, 13]])
     [(1, of_rows [[1, 1], [0, 1], [1, 0]]), (2, of_rows [[1, 1], [4, 3], [10, 9]])]
     (of_rows [[1, 0]]) 2 (\<lambda>x. x * (1 - x)) = Inr gradients"
    and len: "length gradients = paramCount [2, 2, 1]"
    and rp: "reshapeParams [(1, 2), (0, 2), (2, 1)] gradients = Inr unflattened"
    and ks: "keys unflattened = keys grads"
    and same: "list_all (\<lambda>l. same_at unflattened grads (int l)) [1..<length [2, 2, 1 :: nat]]"
    by blast
  have g: "gradients = [- 123, - 1098, - 36, - (921 / 2), - (159 / 2), - 621, 27 / 2, 49, 130]"
    using bp backProp_example_3 by simp
  from example_layered example_shapes m backProp_example_3 fl len rp ks same
  show ?thesis unfolding g by blast
qed

section \<open>The shapes of the forward pass\<close>

lemma thetas_shapes_at:
  "thetas_shapes sizes thetas \<Longrightarrow> 1 \<le> l \<Longrightarrow> l < length sizes \<Longrightarrow>
   shaped_at thetas (int l) (sizes ! l) (Suc (sizes ! (l - 1)))"
  by (auto simp: thetas_shapes_def list_all_iff)

lemma activs_shapes_at:
  "activs_shapes sizes mm k activs \<Longrightarrow> 1 \<le> l \<Longrightarrow> l \<le> k \<Longrightarrow>
   shaped_at activs (int l) (Suc (sizes ! (l - 1))) mm"
  by (auto simp: activs_shapes_def list_all_iff)

lemma add_bias_row_shaped:
  "shaped r mm A \<Longrightarrow> \<exists>A'. add_bias_row mm A = Inr A' \<and> shaped (Suc r) mm A'"
  by (simp add: shaped_def add_bias_row_def)

lemma feedForward_step_shaped:
  assumes T: "thetas_shapes sizes thetas"
    and A: "activs_shapes sizes mm k activs"
    and k: "1 \<le> k" "k < length sizes"
  shows "\<exists>activs' regTerm'. feedForward_step thetas mm neuron (int k) (activs, regTerm)
             = Inr (activs', regTerm')
           \<and> activs_shapes sizes mm (Suc k) activs'"
proof -
  have ik: "int k + 1 = int (Suc k)" by simp
  from shaped_atD[OF thetas_shapes_at[OF T k]] obtain Tk where
    Tk: "getitem thetas (int k) = Inr Tk" "shaped (sizes ! k) (Suc (sizes ! (k - 1))) Tk" by blast
  from shaped_atD[OF activs_shapes_at[OF A k(1) order_refl]] obtain Ak where
    Ak: "getitem activs (int k) = Inr Ak" "shaped (Suc (sizes ! (k - 1))) mm Ak" by blast
  from dot_shaped[OF Tk(2) Ak(2)] obtain z where
    z: "dot Tk Ak = Inr z" "shaped (sizes ! k) mm z" by blast
  from add_bias_row_shaped[OF map_matrix_shaped[OF z(2)], of neuron] obtain A' where
    A': "add_bias_row mm (map_matrix neuron z) = Inr A'" "shaped (Suc (sizes ! k)) mm A'" by blast
  have step: "feedForward_step thetas mm neuron (int k) (activs, regTerm)
              = Inr (setitem activs (int (Suc k)) A', regTerm + sumsq_nobias Tk)"
    unfolding feedForward_step_def
    by (simp only: prod.case Tk(1) Ak(1) z(1) A'(1) sum.case ik)
  have fresh: "int (Suc k) \<notin> set (keys activs)" using A by (auto simp: activs_shapes_def)
  have up: "[1..<Suc (Suc k)] = [1..<Suc k] @ [Suc k]" by simp
  have ks: "keys (setitem activs (int (Suc k)) A') = map int [1..<Suc (Suc k)]"
    using A fresh by (simp only: keys_setitem activs_shapes_def up if_False map_append list.map)
  have "list_all (\<lambda>l. shaped_at (setitem activs (int (Suc k)) A') (int l) (sizes ! (l - 1) + 1) mm)
          [1..<Suc (Suc k)]"
    unfolding list_all_iff
  proof
    fix l assume "l \<in> set [1..<Suc (Suc k)]"
    then have l: "1 \<le> l" "l \<le> Suc k" by auto
    show "shaped_at (setitem activs (int (Suc k)) A') (int l) (sizes ! (l - 1) + 1) mm"
    proof (cases "l = Suc k")
      case True
      then show ?thesis using A'(2) by (simp add: shaped_at_setitem)
    next
      case False
      then have "l \<le> k" using l by simp
      from activs_shapes_at[OF A l(1) this] False show ?thesis
        by (simp add: shaped_at_setitem)
    qed
  qed
  with ks have "activs_shapes sizes mm (Suc k) (setitem activs (int (Suc k)) A')"
    by (simp add: activs_shapes_def)
  with step show ?thesis by blast
qed

lemma feedForward_loop_shaped:
  assumes T: "thetas_shapes sizes thetas"
  shows "1 \<le> k \<Longrightarrow> k < length sizes \<Longrightarrow> activs_shapes sizes mm k activs \<Longrightarrow>
     \<exists>activs' regTerm'. foldE (feedForward_step thetas mm neuron)
                           (map int [k..<length sizes - 1]) (activs, regTerm)
                         = Inr (activs', regTerm')
                       \<and> activs_shapes sizes mm (length sizes - 1) activs'"
proof (induction "length sizes - 1 - k" arbitrary: k activs regTerm)
  case 0
  then have "k = length sizes - 1" by simp
  then show ?case using "0.prems"(3) by simp
next
  case (Suc d)
  then have k: "1 \<le> k" "k < length sizes" and k2: "Suc k < length sizes" by auto
  from feedForward_step_shaped[OF T Suc.prems(3) k, of neuron regTerm] obtain a1 r1 where
    step: "feedForward_step thetas mm neuron (int k) (activs, regTerm) = Inr (a1, r1)"
    and a1: "activs_shapes sizes mm (Suc k) a1" by blast
  have "d = length sizes - 1 - Suc k" using Suc.hyps(2) by simp
  from Suc.hyps(1)[OF this _ k2 a1, of r1] obtain activs' regTerm' where
    rest: "foldE (feedForward_step thetas mm neuron) (map int [Suc k..<length sizes - 1]) (a1, r1)
           = Inr (activs', regTerm')"
    and ok: "activs_shapes sizes mm (length sizes - 1) activs'" by auto
  have "k < length sizes - 1" using k2 by simp
  then have "[k..<length sizes - 1] = k # [Suc k..<length sizes - 1]" by (rule upt_conv_Cons)
  then have "foldE (feedForward_step thetas mm neuron) (map int [k..<length sizes - 1])
               (activs, regTerm) = Inr (activs', regTerm')"
    using step rest by simp
  with ok show ?case by blast
qed

lemma lastkey_upt:
  assumes "keys d = map int [1..<Suc k]" and "1 \<le> k"
  shows "lastkey d = Inr (int k)"
proof -
  have "[1..<Suc k] = [1..<k] @ [k]" using assms(2) by simp
  then have "keys d = map int [1..<k] @ [int k]" by (simp only: assms(1) map_append list.map)
  then have "last (keys d) = int k" and "keys d \<noteq> []" by simp_all
  then show ?thesis by (auto simp: lastkey_def keys_def)
qed

lemma feedForward_stabilise_shaped:
  "shaped r c h \<Longrightarrow> shaped r c (feedForward_stabilise h)"
  by (simp add: shaped_def feedForward_stabilise_shape)

lemma feedForward_shaped:
  assumes T: "thetas_shapes sizes thetas" and n: "2 \<le> length sizes"
    and I: "shaped (sizes ! 0 + 1) mm input"
    and tg: "shaped (sizes ! (length sizes - 1)) mm targets"
  shows "\<exists>hypothesis activs regTerm'.
           feedForward thetas input regTerm mm neuron = Inr (hypothesis, activs, regTerm')
         \<and> backProp_shapes sizes mm thetas hypothesis activs targets"
proof -
  define N where "N = length sizes - 1"
  have N: "1 \<le> N" "N < length sizes" "Suc N = length sizes" using n by (simp_all add: N_def)
  have ks: "keys thetas = map int [1..<Suc N]" using T by (simp add: thetas_shapes_def N(3))
  have "[1..<Suc N] = [1..<N] @ [N]" using N(1) by simp
  then have "keys thetas = map int [1..<N] @ [int N]" by (simp only: ks map_append list.map)
  then have bl: "butlast (keys thetas) = map int [1..<length sizes - 1]"
    by (simp add: N_def)
  have "shaped_at [(1, input)] (int 1) (sizes ! (1 - 1) + 1) mm"
    using I by (simp add: shaped_at_def getitem_def)
  then have a0: "activs_shapes sizes mm 1 [(1, input)]"
    by (simp add: activs_shapes_def keys_def)
  have "1 < length sizes" using n by simp
  from feedForward_loop_shaped[OF T order_refl this a0, of neuron regTerm] obtain activs r1 where
    loop: "foldE (feedForward_step thetas mm neuron) (map int [1..<length sizes - 1])
             ([(1, input)], regTerm) = Inr (activs, r1)"
    and as: "activs_shapes sizes mm N activs" by (auto simp: N_def)
  have lt: "lastkey thetas = Inr (int N)" using ks N(1) by (rule lastkey_upt)
  have "keys activs = map int [1..<Suc N]" using as by (simp add: activs_shapes_def)
  then have la: "lastkey activs = Inr (int N)" using N(1) by (rule lastkey_upt)
  from shaped_atD[OF thetas_shapes_at[OF T N(1) N(2)]] obtain TN where
    TN: "getitem thetas (int N) = Inr TN" "shaped (sizes ! N) (Suc (sizes ! (N - 1))) TN" by blast
  from shaped_atD[OF activs_shapes_at[OF as N(1) order_refl]] obtain AN where
    AN: "getitem activs (int N) = Inr AN" "shaped (Suc (sizes ! (N - 1))) mm AN" by blast
  from dot_shaped[OF TN(2) AN(2)] obtain z where
    z: "dot TN AN = Inr z" "shaped (sizes ! N) mm z" by blast
  have pp: "feedForward_propagate thetas input regTerm mm neuron
              = Inr (map_matrix neuron z, activs, r1 + sumsq_nobias TN)"
    unfolding feedForward_propagate_def
    by (simp only: bl loop sum.case prod.case lt TN(1) la AN(1) z(1))
  have ff: "feedForward thetas input regTerm mm neuron
            = Inr (feedForward_stabilise (map_matrix neuron z), activs, r1 + sumsq_nobias TN)"
    unfolding feedForward_def by (simp only: pp sum.case prod.case)
  have hs: "shaped (sizes ! (length sizes - 1)) mm (feedForward_stabilise (map_matrix neuron z))"
    using z(2) by (simp add: N_def feedForward_stabilise_shaped map_matrix_shaped)
  have "list_all (\<lambda>l. shaped_at thetas (int l) (sizes ! l) (sizes ! (l - 1) + 1)
                   \<and> shaped_at activs (int l) (sizes ! (l - 1) + 1) mm) [1..<length sizes]"
    unfolding list_all_iff
  proof
    fix l assume "l \<in> set [1..<length sizes]"
    then have l: "1 \<le> l" "l < length sizes" "l \<le> N" by (auto simp: N_def)
    show "shaped_at thetas (int l) (sizes ! l) (sizes ! (l - 1) + 1)
          \<and> shaped_at activs (int l) (sizes ! (l - 1) + 1) mm"
      using thetas_shapes_at[OF T l(1) l(2)] activs_shapes_at[OF as l(1) l(3)] by simp
  qed
  then have "backProp_shapes sizes mm thetas (feedForward_stabilise (map_matrix neuron z))
               activs targets"
    using hs tg ks by (simp add: backProp_shapes_def N(3))
  with ff show ?thesis by blast
qed

lemma reshapeParams_shapes:
  assumes L: "layered sizes arch" and len: "paramCount sizes \<le> length params"
  shows "\<exists>thetas. reshapeParams arch params = Inr thetas \<and> thetas_shapes sizes thetas"
proof -
  let ?thetas = "map (\<lambda>l. (int l, layerMatrix sizes params l)) [1..<length sizes]"
  have r: "reshapeParams arch params = Inr ?thetas" using L len by (rule reshapeParams_ok)
  have ks: "keys ?thetas = map int [1..<length sizes]" by (simp add: keys_def comp_def)
  have "list_all (\<lambda>l. shaped_at ?thetas (int l) (sizes ! l) (sizes ! (l - 1) + 1))
          [1..<length sizes]"
    unfolding list_all_iff
  proof
    fix l assume "l \<in> set [1..<length sizes]"
    then have l: "1 \<le> l" "l < length sizes" by auto
    have "getitem ?thetas (int l) = Inr (layerMatrix sizes params l)"
      using l by (rule getitem_layers)
    moreover have "shaped (sizes ! l) (sizes ! (l - 1) + 1) (layerMatrix sizes params l)"
      by (simp add: shaped_def layerMatrix_def)
    ultimately show "shaped_at ?thetas (int l) (sizes ! l) (sizes ! (l - 1) + 1)"
      by (rule shaped_atI)
  qed
  with ks have "thetas_shapes sizes ?thetas" by (simp only: thetas_shapes_def simp_thms)
  with r show ?thesis by blast
qed

text \<open>
  The steps of \<open>costFunction\<close> one after the other: for a parameter vector of
  the right length and well-shaped input and targets, unflattening, the forward
  pass and back propagation all return, and the gradient vector is as long as the
  parameter vector.
\<close>

lemma gradient_length:
  assumes L: "layered sizes arch" and len: "length params = paramCount sizes"
    and I: "shaped (sizes ! 0 + 1) mm input"
    and tg: "shaped (sizes ! (length sizes - 1)) mm targets"
    and m: "m \<noteq> 0"
  shows "\<exists>thetas hypothesis activs regTerm gradients.
           reshapeParams arch params = Inr thetas
         \<and> feedForward thetas input 0 mm neuron = Inr (hypothesis, activs, regTerm)
         \<and> backProp arch LAMBDA thetas hypothesis activs targets m dneuron = Inr gradients
         \<and> length gradients = length params"
proof -
  have n: "2 \<le> length sizes" using L by (rule layered_len)
  have "paramCount sizes \<le> length params" using len by simp
  from reshapeParams_shapes[OF L this] obtain thetas where
    r: "reshapeParams arch params = Inr thetas" and T: "thetas_shapes sizes thetas" by blast
  from feedForward_shaped[OF T n I tg, of 0 neuron] obtain hypothesis activs regTerm where
    f: "feedForward thetas input 0 mm neuron = Inr (hypothesis, activs, regTerm)"
    and S: "backProp_shapes sizes mm thetas hypothesis activs targets" by blast
  from backProp_layout[OF L S m, of LAMBDA dneuron] obtain gradients where
    b: "backProp arch LAMBDA thetas hypothesis activs targets m dneuron = Inr gradients"
    and "length gradients = paramCount sizes" by blast
  with len have "length gradients = length params" by simp
  with r f b show ?thesis by blast
qed

end
